theory Spec2Isabelle
  imports Complex_Main "HOL-Library.Sublist"
begin

section \<open>JavaScript strings\<close>

text \<open>
  A JavaScript string is a sequence of UTF-16 code units; a code unit is modelled as a
  natural number. \<open>js\<close> turns an ASCII literal into such a sequence. The characters
  of the source's patterns that are not ASCII keep their code units: the right single
  quotation mark is 8217 and the en dash is 8211.
\<close>

type_synonym jsstring = "nat list"

definition js :: "string \<Rightarrow> jsstring" where
  "js s = map of_char s"

text \<open>
  \<open>is_space\<close> is the class \<^verbatim>\<open>\s\<close> of a regular expression, which is also the set
  of code units that \<^verbatim>\<open>String.prototype.trim\<close> strips (white space and line
  terminators). \<open>is_word\<close> is \<^verbatim>\<open>\w\<close>, \<open>is_digit\<close> is \<^verbatim>\<open>\d\<close>.
\<close>

definition is_space :: "nat \<Rightarrow> bool" where
  "is_space c = (c = 9 \<or> c = 10 \<or> c = 11 \<or> c = 12 \<or> c = 13 \<or> c = 32 \<or> c = 160 \<or> c = 5760
     \<or> (8192 \<le> c \<and> c \<le> 8202) \<or> c = 8232 \<or> c = 8233 \<or> c = 8239 \<or> c = 8287
     \<or> c = 12288 \<or> c = 65279)"

definition is_digit :: "nat \<Rightarrow> bool" where
  "is_digit c = (48 \<le> c \<and> c \<le> 57)"

definition is_upper :: "nat \<Rightarrow> bool" where
  "is_upper c = (65 \<le> c \<and> c \<le> 90)"

definition is_lower :: "nat \<Rightarrow> bool" where
  "is_lower c = (97 \<le> c \<and> c \<le> 122)"

definition is_alpha :: "nat \<Rightarrow> bool" where
  "is_alpha c = (is_upper c \<or> is_lower c)"

definition is_word :: "nat \<Rightarrow> bool" where
  "is_word c = (is_alpha c \<or> is_digit c \<or> c = 95)"

text \<open>
  \<^verbatim>\<open>toLowerCase\<close>. Every use in the source searches the result for ASCII text only
  (\<^verbatim>\<open>includes\<close>, \<^verbatim>\<open>startsWith\<close> and a pattern of ASCII alternatives), so what
  matters is which code units have an ASCII letter in their lower-case form: the
  letters A to Z, the dotted capital I (304, whose lower case is i followed by the
  combining dot 775) and the Kelvin sign (8490, whose lower case is k). Other code
  units are left as they are.
\<close>

definition lower_unit :: "nat \<Rightarrow> jsstring" where
  "lower_unit c =
     (if is_upper c then [c + 32]
      else if c = 304 then [105, 775]
      else if c = 8490 then [107]
      else [c])"

definition toLowerCase :: "jsstring \<Rightarrow> jsstring" where
  "toLowerCase s = concat (map lower_unit s)"

text \<open>
  \<^verbatim>\<open>toUpperCase\<close> is applied by the source to one capture only, which consists of
  ASCII letters; on those it is the map below.
\<close>

definition upper_ascii :: "nat \<Rightarrow> nat" where
  "upper_ascii c = (if is_lower c then c - 32 else c)"

definition toUpperCase :: "jsstring \<Rightarrow> jsstring" where
  "toUpperCase s = map upper_ascii s"

fun startsWith :: "jsstring \<Rightarrow> jsstring \<Rightarrow> bool" where
  "startsWith s [] = True"
| "startsWith [] (n # ns) = False"
| "startsWith (c # cs) (n # ns) = (c = n \<and> startsWith cs ns)"

fun str_includes :: "jsstring \<Rightarrow> jsstring \<Rightarrow> bool" where
  "str_includes [] n = (n = [])"
| "str_includes (c # cs) n = (startsWith (c # cs) n \<or> str_includes cs n)"

text \<open>\<^verbatim>\<open>xs.slice(0, n)\<close> for an integer \<open>n\<close>: a negative \<open>n\<close> counts from the end.\<close>

definition slice0 :: "int \<Rightarrow> 'a list \<Rightarrow> 'a list" where
  "slice0 n xs = (if n < 0 then take (nat (int (length xs) + n)) xs else take (nat n) xs)"

section \<open>The text normalizer\<close>

text \<open>
  \<^verbatim>\<open>const clean = (s) => String(s || '').replace(/\s+/g, ' ').trim();\<close>

  The argument is any value; the values that reach \<open>clean\<close> are strings and the
  missing values \<^verbatim>\<open>undefined\<close> and \<^verbatim>\<open>null\<close>. \<open>or_empty\<close> is
  \<^verbatim>\<open>s || ''\<close>: the empty string is falsy and gives the empty string as the missing
  values do. \<open>collapse_ws\<close> is the global replacement: scanning from the left, each
  match of the greedy \<^verbatim>\<open>\s+\<close> is a maximal run of white space and is replaced by one
  space (code unit 32).
\<close>

datatype jsval = Undefined | Null | Str jsstring

fun or_empty :: "jsval \<Rightarrow> jsstring" where
  "or_empty (Str s) = s"
| "or_empty Undefined = []"
| "or_empty Null = []"

function collapse_ws :: "jsstring \<Rightarrow> jsstring" where
  "collapse_ws [] = []"
| "collapse_ws (c # cs) =
     (if is_space c then 32 # collapse_ws (dropWhile is_space cs) else c # collapse_ws cs)"
  by pat_completeness auto
termination
  by (relation "measure length") (auto simp: length_dropWhile_le less_Suc_eq_le)

definition trim :: "jsstring \<Rightarrow> jsstring" where
  "trim s = rev (dropWhile is_space (rev (dropWhile is_space s)))"

definition clean :: "jsval \<Rightarrow> jsstring" where
  "clean s = trim (collapse_ws (or_empty s))"

text \<open>
  \<^verbatim>\<open>txt.split(/\n+/).map(clean).filter(Boolean)\<close>: the text is cut at every maximal
  run of line feeds (a separator at either end leaves an empty piece there), each piece
  is normalized, and the empty pieces are dropped.
\<close>

function split_nl :: "jsstring \<Rightarrow> jsstring list" where
  "split_nl s =
     (case dropWhile (\<lambda>c. c \<noteq> 10) s of
        [] \<Rightarrow> [s]
      | n # rest \<Rightarrow> takeWhile (\<lambda>c. c \<noteq> 10) s # split_nl (dropWhile (\<lambda>c. c = 10) rest))"
  by pat_completeness auto
termination
proof (relation "measure length")
  show "wf (measure length)" by simp
next
  fix s :: jsstring and n rest
  assume a: "dropWhile (\<lambda>c. c \<noteq> 10) s = n # rest"
  have "length (dropWhile (\<lambda>c. c = 10) rest) \<le> length rest" by (rule length_dropWhile_le)
  moreover have "length (n # rest) \<le> length s" unfolding a[symmetric] by (rule length_dropWhile_le)
  ultimately show "(dropWhile (\<lambda>c. c = 10) rest, s) \<in> measure length" by simp
qed

definition text_lines :: "jsstring \<Rightarrow> jsstring list" where
  "text_lines txt = filter (\<lambda>l. l \<noteq> []) (map (\<lambda>l. clean (Str l)) (split_nl txt))"

declare split_nl.simps [simp del]

section \<open>Regular expressions\<close>

text \<open>
  The patterns of the source are written as terms of \<open>regex\<close> and run by a backtracking
  matcher that follows the ECMAScript semantics: alternatives are tried from the left,
  a quantifier is greedy, and the first way to match wins.

  A position in the text is a pair \<open>(l, r)\<close>: \<open>r\<close> is the text from the position on
  and \<open>l\<close> is the text before it, reversed (so the code unit before the position is
  the head of \<open>l\<close>). \<open>matches e z\<close> lists, in the order in which backtracking would
  reach them, the positions at which a match of \<open>e\<close> that starts at \<open>z\<close> can end.

  \<open>Rep mn mx e\<close> is the greedy quantifier \<^verbatim>\<open>{mn,mx}\<close> (\<open>None\<close> for no upper bound):
  one more round of \<open>e\<close> is tried before stopping, and once the minimum is reached
  a round that consumes nothing is rejected, as the ECMAScript RepeatMatcher does.
  \<open>WordB\<close> is \<^verbatim>\<open>\b\<close>, \<open>Bol\<close> is \<^verbatim>\<open>^\<close> and \<open>Eol\<close> is \<^verbatim>\<open>$\<close> (no pattern of the
  source has the multiline flag).
\<close>

datatype regex =
    Cls "nat \<Rightarrow> bool"
  | Eps
  | Seq regex regex
  | Alt regex regex
  | Rep nat "nat option" regex
  | WordB
  | Bol
  | Eol

type_synonym pos = "jsstring \<times> jsstring"

fun word_next :: "jsstring \<Rightarrow> bool" where
  "word_next [] = False"
| "word_next (c # cs) = is_word c"

function matches :: "regex \<Rightarrow> pos \<Rightarrow> pos list" where
  "matches (Cls p) (l, []) = []"
| "matches (Cls p) (l, c # r) = (if p c then [(c # l, r)] else [])"
| "matches Eps z = [z]"
| "matches (Seq a b) z = concat (map (matches b) (matches a z))"
| "matches (Alt a b) z = matches a z @ matches b z"
| "matches (Rep mn mx e) z =
     (if mx = Some 0 then [z]
      else concat (map (matches (Rep (mn - 1) (map_option (\<lambda>m. m - 1) mx) e))
                       (filter (\<lambda>y. 0 < mn \<or> length (snd y) < length (snd z)) (matches e z)))
           @ (if mn = 0 then [z] else []))"
| "matches WordB (l, r) = (if word_next l \<noteq> word_next r then [(l, r)] else [])"
| "matches Bol (l, r) = (if l = [] then [(l, r)] else [])"
| "matches Eol (l, r) = (if r = [] then [(l, r)] else [])"
  by pat_completeness auto
termination
  by (relation "inv_image (less_than <*lex*> less_than <*lex*> less_than)
        (\<lambda>(e, z). (size e, (case e of Rep mn _ _ \<Rightarrow> mn | _ \<Rightarrow> 0), length (snd z)))") auto

declare matches.simps(6) [simp del]

text \<open>
  A pattern whose capture groups all stand at the top level of a sequence is given as the
  list of the parts of that sequence. \<open>match_seq\<close> lists the ways to match the parts one
  after the other, each way as the list of the positions between the parts: the start,
  the end of the first part, and so on to the end of the match. The first way is the
  match that JavaScript reports; a capture is the text between two of its positions.
\<close>

fun match_seq :: "regex list \<Rightarrow> pos \<Rightarrow> pos list list" where
  "match_seq [] z = [[z]]"
| "match_seq (e # es) z = concat (map (\<lambda>y. map ((#) z) (match_seq es y)) (matches e z))"

definition first_match :: "regex list \<Rightarrow> pos \<Rightarrow> pos list option" where
  "first_match es z = (case match_seq es z of [] \<Rightarrow> None | b # bs \<Rightarrow> Some b)"

text \<open>
  \<open>search es l r\<close> is \<^verbatim>\<open>exec\<close> with \<^verbatim>\<open>lastIndex\<close> at the position \<open>(l, r)\<close>: the
  start positions are tried from there to the end of the text, the end included.
\<close>

fun search :: "regex list \<Rightarrow> jsstring \<Rightarrow> jsstring \<Rightarrow> pos list option" where
  "search es l [] = first_match es (l, [])"
| "search es l (c # r) =
     (case first_match es (l, c # r) of Some b \<Rightarrow> Some b | None \<Rightarrow> search es (c # l) r)"

text \<open>\<^verbatim>\<open>re.test(s)\<close> and \<^verbatim>\<open>s.match(re)\<close> for a pattern without the global flag.\<close>

definition re_test :: "regex list \<Rightarrow> jsstring \<Rightarrow> bool" where
  "re_test es s = (search es [] s \<noteq> None)"

text \<open>The text between two positions of one match, and the index of a position.\<close>

definition between :: "pos \<Rightarrow> pos \<Rightarrow> jsstring" where
  "between y z = rev (take (length (fst z) - length (fst y)) (fst z))"

definition grp :: "pos list \<Rightarrow> nat \<Rightarrow> nat \<Rightarrow> jsstring" where
  "grp b i j = between (b ! i) (b ! j)"

subsection \<open>Writing patterns\<close>

definition chr :: "nat \<Rightarrow> regex" where
  "chr c = Cls (\<lambda>x. x = c)"

text \<open>
  Under the flag \<^verbatim>\<open>i\<close> (without \<^verbatim>\<open>u\<close>) two code units match when their
  canonical forms agree. The canonical form of a code unit is its upper case, except
  that a code unit outside ASCII never becomes an ASCII one; so an ASCII letter of a
  pattern matches exactly its two cases.
\<close>

definition chr_i :: "nat \<Rightarrow> regex" where
  "chr_i c = Cls (\<lambda>x. upper_ascii x = upper_ascii c)"

definition lit :: "string \<Rightarrow> regex" where
  "lit s = foldr (\<lambda>c e. Seq (chr (of_char c)) e) s Eps"

definition lit_i :: "string \<Rightarrow> regex" where
  "lit_i s = foldr (\<lambda>c e. Seq (chr_i (of_char c)) e) s Eps"

definition never :: regex where
  "never = Cls (\<lambda>x. False)"

text \<open>An alternation of the given patterns, tried from the left.\<close>

definition alts :: "regex list \<Rightarrow> regex" where
  "alts es = foldr Alt es never"

definition rplus :: "regex \<Rightarrow> regex" where
  "rplus e = Rep 1 None e"

definition rstar :: "regex \<Rightarrow> regex" where
  "rstar e = Rep 0 None e"

definition ropt :: "regex \<Rightarrow> regex" where
  "ropt e = Rep 0 (Some 1) e"

definition seqs :: "regex list \<Rightarrow> regex" where
  "seqs es = foldr Seq es Eps"

text \<open>\<^verbatim>\<open>\s\<close>, \<^verbatim>\<open>\d\<close>, the dot (any code unit but a line terminator) and \<^verbatim>\<open>[-\u2013]\<close>.\<close>

definition sp :: regex where
  "sp = Cls is_space"

definition dg :: regex where
  "dg = Cls is_digit"

definition any_chr :: regex where
  "any_chr = Cls (\<lambda>c. c \<noteq> 10 \<and> c \<noteq> 13 \<and> c \<noteq> 8232 \<and> c \<noteq> 8233)"

definition dash :: regex where
  "dash = Cls (\<lambda>c. c = 45 \<or> c = 8211)"

subsection \<open>What a match consumes\<close>

text \<open>
  \<open>lang e\<close> is the set of texts that a match of \<open>e\<close> can consume (the assertions
  consume nothing). \<open>step w z y\<close> says that \<open>y\<close> is the position reached from \<open>z\<close> by
  reading \<open>w\<close>. Every position that the matcher returns is reached by reading a text
  of the pattern's language.
\<close>

fun lang :: "regex \<Rightarrow> jsstring set" where
  "lang (Cls p) = {[c] | c. p c}"
| "lang Eps = {[]}"
| "lang (Seq a b) = {u @ v | u v. u \<in> lang a \<and> v \<in> lang b}"
| "lang (Alt a b) = lang a \<union> lang b"
| "lang (Rep mn mx e) =
     {concat ws | ws. set ws \<subseteq> lang e \<and>
        (case mx of None \<Rightarrow> mn \<le> length ws | Some m \<Rightarrow> min mn m \<le> length ws \<and> length ws \<le> m)}"
| "lang WordB = {[]}"
| "lang Bol = {[]}"
| "lang Eol = {[]}"

definition step :: "jsstring \<Rightarrow> pos \<Rightarrow> pos \<Rightarrow> bool" where
  "step w z y = (fst y = rev w @ fst z \<and> snd z = w @ snd y)"

lemma step_trans: "step u z y \<Longrightarrow> step v y x \<Longrightarrow> step (u @ v) z x"
  by (auto simp: step_def)


lemma lang_Rep_Nil: "mn = 0 \<or> mx = Some 0 \<Longrightarrow> [] \<in> lang (Rep mn mx e)"
proof -
  assume a: "mn = 0 \<or> mx = Some 0"
  have "[] = concat ([] :: jsstring list)" by simp
  moreover have "set ([] :: jsstring list) \<subseteq> lang e" by simp
  moreover have "(case mx of None \<Rightarrow> mn \<le> length ([] :: jsstring list)
                  | Some m \<Rightarrow> min mn m \<le> length ([] :: jsstring list) \<and> length ([] :: jsstring list) \<le> m)"
    using a by (auto split: option.splits)
  ultimately show ?thesis unfolding lang.simps by blast
qed

lemma lang_Rep_Cons:
  assumes "mx \<noteq> Some 0" and "u \<in> lang e"
    and "v \<in> lang (Rep (mn - 1) (map_option (\<lambda>m. m - 1) mx) e)"
  shows "u @ v \<in> lang (Rep mn mx e)"
proof (cases mx)
  case None
  from assms(3) have "\<exists>ws. v = concat ws \<and> set ws \<subseteq> lang e \<and> mn - 1 \<le> length ws"
    unfolding None by simp
  then obtain ws where ws: "v = concat ws" "set ws \<subseteq> lang e" "mn - 1 \<le> length ws"
    by blast
  have "u @ v = concat (u # ws)" using ws(1) by simp
  moreover have "set (u # ws) \<subseteq> lang e" using ws(2) assms(2) by simp
  moreover have "mn \<le> length (u # ws)" using ws(3) by simp
  ultimately show ?thesis unfolding None lang.simps option.case by blast
next
  case (Some m)
  with assms(1) have m: "m \<noteq> 0" by simp
  from assms(3) have "\<exists>ws. v = concat ws \<and> set ws \<subseteq> lang e \<and>
    min (mn - 1) (m - 1) \<le> length ws \<and> length ws \<le> m - 1"
    unfolding Some by simp
  then obtain ws where ws: "v = concat ws" "set ws \<subseteq> lang e"
    "min (mn - 1) (m - 1) \<le> length ws" "length ws \<le> m - 1"
    by blast
  have "u @ v = concat (u # ws)" using ws(1) by simp
  moreover have "set (u # ws) \<subseteq> lang e" using ws(2) assms(2) by simp
  moreover have "min mn m \<le> length (u # ws) \<and> length (u # ws) \<le> m" using ws(3,4) m by auto
  ultimately show ?thesis unfolding Some lang.simps option.case by blast
qed

lemma matches_sound: "y \<in> set (matches e z) \<Longrightarrow> \<exists>w. w \<in> lang e \<and> step w z y"
proof (induction e z arbitrary: y rule: matches.induct)
  case (4 a b z)
  from 4(3) obtain x where x: "x \<in> set (matches a z)" and y: "y \<in> set (matches b x)" by auto
  from 4(1)[OF x] obtain u where u: "u \<in> lang a" "step u z x" by blast
  from 4(2)[OF x y] obtain v where v: "v \<in> lang b" "step v x y" by blast
  from u v have "u @ v \<in> lang (Seq a b)" by auto
  with step_trans[OF u(2) v(2)] show ?case by blast
next
  case (5 a b z)
  from 5(3) have "y \<in> set (matches a z) \<or> y \<in> set (matches b z)" by simp
  then show ?case
  proof
    assume "y \<in> set (matches a z)"
    from 5(1)[OF this] obtain w where "w \<in> lang a" "step w z y" by blast
    then have "w \<in> lang (Alt a b)" by simp
    with \<open>step w z y\<close> show ?thesis by blast
  next
    assume "y \<in> set (matches b z)"
    from 5(2)[OF this] obtain w where "w \<in> lang b" "step w z y" by blast
    then have "w \<in> lang (Alt a b)" by simp
    with \<open>step w z y\<close> show ?thesis by blast
  qed
next
  case (6 mn mx e z)
  show ?case
  proof (cases "mx = Some 0")
    case True
    with 6(3) have "y = z" by (simp add: matches.simps(6))
    with lang_Rep_Nil[of mn mx e] True show ?thesis by (auto simp: step_def)
  next
    case False
    from 6(3) False have
      "(\<exists>x \<in> set (matches e z). (0 < mn \<or> length (snd x) < length (snd z))
           \<and> y \<in> set (matches (Rep (mn - 1) (map_option (\<lambda>m. m - 1) mx) e) x))
       \<or> (mn = 0 \<and> y = z)"
      by (subst (asm) matches.simps(6)) (force split: if_splits)
    then show ?thesis
    proof
      assume "mn = 0 \<and> y = z"
      with lang_Rep_Nil[of mn mx e] show ?thesis by (auto simp: step_def)
    next
      assume "\<exists>x \<in> set (matches e z). (0 < mn \<or> length (snd x) < length (snd z))
           \<and> y \<in> set (matches (Rep (mn - 1) (map_option (\<lambda>m. m - 1) mx) e) x)"
      then obtain x where x: "x \<in> set (matches e z)"
        and c: "0 < mn \<or> length (snd x) < length (snd z)"
        and y: "y \<in> set (matches (Rep (mn - 1) (map_option (\<lambda>m. m - 1) mx) e) x)" by blast
      from 6(1)[OF False x] obtain u where u: "u \<in> lang e" "step u z x" by blast
      have "x \<in> set (filter (\<lambda>y. 0 < mn \<or> length (snd y) < length (snd z)) (matches e z))"
        using x c by simp
      from 6(2)[OF False this y] obtain v
        where v: "v \<in> lang (Rep (mn - 1) (map_option (\<lambda>m. m - 1) mx) e)" "step v x y" by blast
      from lang_Rep_Cons[OF False u(1) v(1)] step_trans[OF u(2) v(2)] show ?thesis by blast
    qed
  qed
qed (auto simp: step_def split: if_splits)

lemma step_between: "step w z y \<Longrightarrow> between z y = w"
  by (simp add: step_def between_def)

lemma step_length: "step w z y \<Longrightarrow> length (snd z) = length w + length (snd y)"
  by (simp add: step_def)

text \<open>
  \<open>chain es b\<close>: the positions \<open>b\<close> are linked by matches of the parts \<open>es\<close>, one
  after the other. Every way that \<open>match_seq\<close> lists is such a chain, and \<open>search\<close>
  returns a chain that starts at or after the position it was given.
\<close>

fun chain :: "regex list \<Rightarrow> pos list \<Rightarrow> bool" where
  "chain [] b = (\<exists>z. b = [z])"
| "chain (e # es) b = (\<exists>z y t. b = z # y # t \<and> y \<in> set (matches e z) \<and> chain es (y # t))"

lemma match_seq_chain: "b \<in> set (match_seq es z) \<Longrightarrow> chain es b \<and> hd b = z"
proof (induction es arbitrary: z b)
  case Nil
  then show ?case by simp
next
  case (Cons e es)
  from Cons.prems obtain y t where y: "y \<in> set (matches e z)" and t: "t \<in> set (match_seq es y)"
    and b: "b = z # t" by auto
  from Cons.IH[OF t] have c: "chain es t" and h: "hd t = y" by auto
  from c have "t \<noteq> []" by (cases es) auto
  with h obtain t' where "t = y # t'" by (cases t) auto
  with y c b show ?case by auto
qed

lemma first_match_chain: "first_match es z = Some b \<Longrightarrow> chain es b \<and> hd b = z"
proof -
  assume "first_match es z = Some b"
  then have "b \<in> set (match_seq es z)"
    by (auto simp: first_match_def split: list.splits)
  then show ?thesis by (rule match_seq_chain)
qed

lemma search_chain:
  "search es l r = Some b \<Longrightarrow> chain es b \<and> (\<exists>w. step w (l, r) (hd b))"
proof (induction r arbitrary: l)
  case Nil
  then have "chain es b \<and> hd b = (l, [])" using first_match_chain by simp
  then show ?case by (auto simp: step_def)
next
  case (Cons c r)
  show ?case
  proof (cases "first_match es (l, c # r)")
    case (Some b')
    with Cons.prems have "first_match es (l, c # r) = Some b" by simp
    then have "chain es b \<and> hd b = (l, c # r)" by (rule first_match_chain)
    then show ?thesis by (auto simp: step_def)
  next
    case None
    with Cons.prems have "search es (c # l) r = Some b" by simp
    from Cons.IH[OF this] obtain w where c: "chain es b" and w: "step w (c # l, r) (hd b)" by blast
    have "step [c] (l, c # r) (c # l, r)" by (simp add: step_def)
    from step_trans[OF this w] c show ?thesis by blast
  qed
qed

lemma search_None: "search es l r = None \<Longrightarrow> first_match es (l, r) = None"
  by (cases r) (auto split: option.splits)

section \<open>Results extraction\<close>

text \<open>
  \<^verbatim>\<open>Number(s)\<close> followed by \<^verbatim>\<open>Number.isFinite\<close>, on the strings the source passes:
  decimal literals. \<open>None\<close> is the answer \<^verbatim>\<open>NaN\<close>. A percentage is kept as the
  exact rational value of its literal; JavaScript rounds that value to the nearest
  double, which is monotone and so keeps every bound by a double (as 0 and 100 are).
  Literals with a sign, an exponent, a radix prefix or surrounding white space, and
  \<^verbatim>\<open>Infinity\<close>, are not decimal literals here: no capture of the source's patterns has
  that form (lemma \<open>Number_re_num\<close> below).
\<close>

definition digits_val :: "jsstring \<Rightarrow> nat" where
  "digits_val ds = foldl (\<lambda>a c. 10 * a + (c - 48)) 0 ds"

definition Number :: "jsstring \<Rightarrow> rat option" where
  "Number s =
     (if s = [] then Some 0
      else (case dropWhile is_digit s of
              [] \<Rightarrow> Some (of_nat (digits_val s))
            | d # fs \<Rightarrow>
                if d = 46 \<and> list_all is_digit fs \<and> (takeWhile is_digit s \<noteq> [] \<or> fs \<noteq> [])
                then Some (of_nat (digits_val (takeWhile is_digit s))
                           + of_nat (digits_val fs) / 10 ^ length fs)
                else None))"

record result =
  choice :: jsstring
  pct :: rat

text \<open>
  \<^verbatim>\<open>/([A-Za-z][A-Za-z\.'\u2019\-]+(?:\s+[A-Za-z][A-Za-z\.'\u2019\-]+){0,4})\s+(\d{1,2}(?:\.\d+)?)\s*%/g\<close>

  The parts of \<open>re_primary\<close> are the first group, \<^verbatim>\<open>\s+\<close>, the second group and
  \<^verbatim>\<open>\s*%\<close>: the first group lies between positions 0 and 1 of a match, the second
  between positions 2 and 3, and position 4 is the end of the match, where
  \<^verbatim>\<open>lastIndex\<close> is left.
\<close>

definition is_name_char :: "nat \<Rightarrow> bool" where
  "is_name_char c = (is_alpha c \<or> c = 46 \<or> c = 39 \<or> c = 8217 \<or> c = 45)"

definition re_word :: regex where
  "re_word = Seq (Cls is_alpha) (rplus (Cls is_name_char))"

definition re_name :: regex where
  "re_name = Seq re_word (Rep 0 (Some 4) (Seq (rplus sp) re_word))"

definition re_num :: regex where
  "re_num = Seq (Rep 1 (Some 2) dg) (ropt (Seq (chr 46) (rplus dg)))"

definition re_primary :: "regex list" where
  "re_primary = [re_name, rplus sp, re_num, Seq (rstar sp) (chr 37)]"

text \<open>
  \<^verbatim>\<open>/\b(\d{1,2}(?:\.\d+)?)\s*[-\u2013]\s*(\d{1,2}(?:\.\d+)?)\b/\<close>: the groups lie between
  positions 1 and 2 and between positions 3 and 4.
\<close>

definition re_fallback :: "regex list" where
  "re_fallback = [WordB, re_num, Seq (rstar sp) (Seq dash (rstar sp)), re_num, WordB]"

text \<open>
  The loop of \<^verbatim>\<open>extractResults\<close>:
  \<^verbatim>\<open>while ((m = re.exec(txt)) !== null) {
      const choice = clean(m[1]); const pct = Number(m[2]);
      if (Number.isFinite(pct)) out.push({ choice, pct });
      if (out.length >= 10) break; }\<close>
  (the bound is 12 in \<^verbatim>\<open>fetch-data_RTW2.js\<close>). The loop state is the position
  \<^verbatim>\<open>lastIndex\<close> and the list \<open>out\<close>.
\<close>

definition push_result :: "pos list \<Rightarrow> result list \<Rightarrow> result list" where
  "push_result b out =
     (case Number (grp b 2 3) of
        None \<Rightarrow> out
      | Some p \<Rightarrow> out @ [\<lparr>choice = clean (Str (grp b 0 1)), pct = p\<rparr>])"

lemma chain4:
  assumes "chain [e0, e1, e2, e3] b"
  shows "\<exists>z0 z1 z2 z3 z4. b = [z0, z1, z2, z3, z4] \<and> z1 \<in> set (matches e0 z0)
     \<and> z2 \<in> set (matches e1 z1) \<and> z3 \<in> set (matches e2 z2) \<and> z4 \<in> set (matches e3 z3)"
  using assms by auto

lemma lang_chr: "w \<in> lang (chr c) \<Longrightarrow> w = [c]"
  by (auto simp: chr_def)

lemma search_primary_advances:
  assumes "search re_primary l r = Some b"
  shows "length (snd (b ! 4)) < length r"
proof -
  from search_chain[OF assms] obtain w where c: "chain re_primary b" and w: "step w (l, r) (hd b)"
    by blast
  from chain4[OF c[unfolded re_primary_def]] obtain z0 z1 z2 z3 z4 where
    b: "b = [z0, z1, z2, z3, z4]" and m0: "z1 \<in> set (matches re_name z0)"
    and m1: "z2 \<in> set (matches (rplus sp) z1)" and m2: "z3 \<in> set (matches re_num z2)"
    and m3: "z4 \<in> set (matches (Seq (rstar sp) (chr 37)) z3)" by blast
  from matches_sound[OF m0] obtain w0 where s0: "step w0 z0 z1" by blast
  from matches_sound[OF m1] obtain w1 where s1: "step w1 z1 z2" by blast
  from matches_sound[OF m2] obtain w2 where s2: "step w2 z2 z3" by blast
  from matches_sound[OF m3] obtain w3 where l3: "w3 \<in> lang (Seq (rstar sp) (chr 37))"
    and s3: "step w3 z3 z4" by blast
  from l3 obtain u where "w3 = u @ [37]" by (auto dest: lang_chr)
  then have "0 < length w3" by simp
  with step_length[OF s0] step_length[OF s1] step_length[OF s2] step_length[OF s3]
  have "length (snd z4) < length (snd z0)" by simp
  moreover from w b have "length (snd z0) \<le> length r" by (simp add: step_def)
  ultimately show ?thesis using b by simp
qed

function primary_loop :: "nat \<Rightarrow> jsstring \<Rightarrow> jsstring \<Rightarrow> result list \<Rightarrow> result list" where
  "primary_loop cap l r out =
     (case search re_primary l r of
        None \<Rightarrow> out
      | Some b \<Rightarrow>
          if cap \<le> length (push_result b out) then push_result b out
          else primary_loop cap (fst (b ! 4)) (snd (b ! 4)) (push_result b out))"
  by pat_completeness auto
termination
  by (relation "measure (\<lambda>(cap, l, r, out). length r)") (auto dest: search_primary_advances)

declare primary_loop.simps [simp del]

text \<open>
  The fallback: \<^verbatim>\<open>const m2 = txt.match(re2); if (m2) { const a = Number(m2[1]);
  const b = Number(m2[2]); if (Number.isFinite(a) && Number.isFinite(b))
  out.push({ choice: 'A', pct: a }, { choice: 'B', pct: b }); }\<close>
\<close>

definition fallback :: "jsstring \<Rightarrow> result list" where
  "fallback txt =
     (case search re_fallback [] txt of
        None \<Rightarrow> []
      | Some b \<Rightarrow>
          (case Number (grp b 1 2) of
             None \<Rightarrow> []
           | Some a \<Rightarrow>
               (case Number (grp b 3 4) of
                  None \<Rightarrow> []
                | Some c \<Rightarrow> [\<lparr>choice = js ''A'', pct = a\<rparr>, \<lparr>choice = js ''B'', pct = c\<rparr>])))"

text \<open>
  \<^verbatim>\<open>extractResults\<close>, with the bound of the loop as a parameter: 10 in
  \<^verbatim>\<open>fetch-data.js\<close> and 12 in \<^verbatim>\<open>fetch-data_RTW2.js\<close>. The fallback runs when the
  loop has left \<open>out\<close> empty.
\<close>

definition extractResults :: "nat \<Rightarrow> jsstring \<Rightarrow> result list" where
  "extractResults cap txt =
     (let out = primary_loop cap [] txt []
      in if length out = 0 then out @ fallback txt else out)"

section \<open>The field classifiers\<close>

subsection \<open>Category\<close>

text \<open>
  \<^verbatim>\<open>const inferCategory = (txt) => {
    const t = txt.toLowerCase();
    if (t.includes('generic ballot')) return 'generic_ballot';
    if (t.includes('approval')) return 'approval';
    if (t.includes('senate')) return 'senate';
    if (t.includes('governor')) return 'governor';
    if (t.includes('house')) return 'house';
    if (t.includes('democratic') && t.includes('primary')) return 'dem_primary';
    if (t.includes('republican') && t.includes('primary')) return 'gop_primary';
    if (t.includes('general election')) return 'pres_general';
    if (t.includes('president') || t.includes('presidential')) return 'president';
    return 'other'; };\<close>
  (the same in both files).
\<close>

definition inferCategory :: "jsstring \<Rightarrow> jsstring" where
  "inferCategory txt =
     (let t = toLowerCase txt in
      if str_includes t (js ''generic ballot'') then js ''generic_ballot''
      else if str_includes t (js ''approval'') then js ''approval''
      else if str_includes t (js ''senate'') then js ''senate''
      else if str_includes t (js ''governor'') then js ''governor''
      else if str_includes t (js ''house'') then js ''house''
      else if str_includes t (js ''democratic'') \<and> str_includes t (js ''primary'') then js ''dem_primary''
      else if str_includes t (js ''republican'') \<and> str_includes t (js ''primary'') then js ''gop_primary''
      else if str_includes t (js ''general election'') then js ''pres_general''
      else if str_includes t (js ''president'') \<or> str_includes t (js ''presidential'') then js ''president''
      else js ''other'')"

subsection \<open>Date text\<close>

text \<open>
  \<^verbatim>\<open>m[0]\<close> of \<^verbatim>\<open>s.match(re)\<close>: the text between the first and the last position of
  the match. \<open>first_some f xs\<close> is the first answer that \<open>f\<close> gives along \<open>xs\<close>.
\<close>

definition match0 :: "regex list \<Rightarrow> jsstring \<Rightarrow> jsstring option" where
  "match0 es s = map_option (\<lambda>b. between (hd b) (last b)) (search es [] s)"

fun first_some :: "('a \<Rightarrow> 'b option) \<Rightarrow> 'a list \<Rightarrow> 'b option" where
  "first_some f [] = None"
| "first_some f (x # xs) = (case f x of Some y \<Rightarrow> Some y | None \<Rightarrow> first_some f xs)"

text \<open>
  \<^verbatim>\<open>/(Jan|Feb|Mar|Apr|May|Jun|Jul|Aug|Sep|Sept|Oct|Nov|Dec)[a-z]*\s+\d{1,2}(?:\s*[-\u2013]\s*\d{1,2})?(?:,?\s*\d{4})?/i\<close>
  and
  \<^verbatim>\<open>/\b\d{1,2}\/\d{1,2}(?:\/\d{2,4})?(?:\s*[-\u2013]\s*\d{1,2}\/\d{1,2}(?:\/\d{2,4})?)?/\<close>.
  Under the flag \<^verbatim>\<open>i\<close> the class \<^verbatim>\<open>[a-z]\<close> holds the ASCII letters of both cases.
\<close>

definition dateRe :: "regex list" where
  "dateRe =
     [seqs [alts (map lit_i [''Jan'', ''Feb'', ''Mar'', ''Apr'', ''May'', ''Jun'', ''Jul'', ''Aug'',
                             ''Sep'', ''Sept'', ''Oct'', ''Nov'', ''Dec'']),
            rstar (Cls is_alpha), rplus sp, Rep 1 (Some 2) dg,
            ropt (seqs [rstar sp, dash, rstar sp, Rep 1 (Some 2) dg]),
            ropt (seqs [ropt (chr 44), rstar sp, Rep 4 (Some 4) dg])]]"

definition mmdd :: regex where
  "mmdd = seqs [Rep 1 (Some 2) dg, chr 47, Rep 1 (Some 2) dg,
                ropt (seqs [chr 47, Rep 2 (Some 4) dg])]"

definition numRe :: "regex list" where
  "numRe = [seqs [WordB, mmdd, ropt (seqs [rstar sp, dash, rstar sp, mmdd])]]"

text \<open>
  \<^verbatim>\<open>const lines = txt.split(/\n+/).map(clean).filter(Boolean);
  for (const line of lines.slice(0, 8)) { if (dateRe.test(line)) return line.match(dateRe)[0]; }
  for (const line of lines.slice(0, 8)) { const m = line.match(numRe); if (m) return m[0]; }
  return '';\<close>
  The number of lines looked at is 8 in \<^verbatim>\<open>fetch-data.js\<close> and 12 in
  \<^verbatim>\<open>fetch-data_RTW2.js\<close>.
\<close>

definition extractDateText :: "nat \<Rightarrow> jsstring \<Rightarrow> jsstring" where
  "extractDateText n txt =
     (let lines = take n (text_lines txt) in
      case first_some (match0 dateRe) lines of
        Some d \<Rightarrow> d
      | None \<Rightarrow> (case first_some (match0 numRe) lines of Some d \<Rightarrow> d | None \<Rightarrow> []))"

subsection \<open>Sample size\<close>

text \<open>
  \<^verbatim>\<open>const m = txt.match(/\b(?:n|N)\s*=\s*(\d{2,6})\b/);
  if (m) return `n=${m[1]}`;
  const m2 = txt.match(/\b(\d{2,6})\s*(LV|RV|A|Adults|Voters)\b/i);
  if (m2) return `${m2[1]} ${m2[2].toUpperCase()}`;
  return '';\<close>
  (the same in both files).
\<close>

definition sampleRe :: "regex list" where
  "sampleRe = [seqs [WordB, Alt (chr 110) (chr 78), rstar sp, chr 61, rstar sp],
               Rep 2 (Some 6) dg, WordB]"

definition sampleRe2 :: "regex list" where
  "sampleRe2 = [WordB, Rep 2 (Some 6) dg, rstar sp,
                alts (map lit_i [''LV'', ''RV'', ''A'', ''Adults'', ''Voters'']), WordB]"

definition extractSample :: "jsstring \<Rightarrow> jsstring" where
  "extractSample txt =
     (case search sampleRe [] txt of
        Some b \<Rightarrow> js ''n='' @ grp b 1 2
      | None \<Rightarrow>
          (case search sampleRe2 [] txt of
             Some b \<Rightarrow> grp b 1 2 @ js '' '' @ toUpperCase (grp b 3 4)
           | None \<Rightarrow> []))"

subsection \<open>Pollster\<close>

text \<open>
  \<^verbatim>\<open>fetch-data.js\<close>:
  \<^verbatim>\<open>const m = txt.match(/\bPollster\s*:\s*([^\n\r]+)\b/i);
  if (m) return clean(m[1]);
  const lines = txt.split(/\n+/).map(clean).filter(Boolean);
  if (!lines.length) return '';
  const first = lines[0];
  if (first.length <= 48 && !/%/.test(first)) return first;
  return '';\<close>
\<close>

definition pollsterRe_fd :: "regex list" where
  "pollsterRe_fd = [seqs [WordB, lit_i ''Pollster'', rstar sp, chr 58, rstar sp],
                    rplus (Cls (\<lambda>c. c \<noteq> 10 \<and> c \<noteq> 13)), WordB]"

definition pickPollster_fd :: "jsstring \<Rightarrow> jsstring" where
  "pickPollster_fd txt =
     (case search pollsterRe_fd [] txt of
        Some b \<Rightarrow> clean (Str (grp b 1 2))
      | None \<Rightarrow>
          (case text_lines txt of
             [] \<Rightarrow> []
           | first # rest \<Rightarrow>
               if length first \<le> 48 \<and> \<not> str_includes first (js ''%'') then first else []))"

text \<open>
  \<^verbatim>\<open>fetch-data_RTW2.js\<close>:
  \<^verbatim>\<open>const lines = txt.split(/\n+/).map(clean).filter(Boolean);
  for (const line of lines.slice(0, 10)) {
    const m = line.match(/^(?:Pollster|Poll|Firm)\s*:?\s*(.+)$/i);
    if (m) return m[1].slice(0, 100); }
  if (lines.length) return lines[0].slice(0, 100);
  return '';\<close>
\<close>

definition pollsterRe_rtw :: "regex list" where
  "pollsterRe_rtw =
     [seqs [Bol, alts [lit_i ''Pollster'', lit_i ''Poll'', lit_i ''Firm''],
            rstar sp, ropt (chr 58), rstar sp],
      rplus any_chr, Eol]"

definition label_value :: "jsstring \<Rightarrow> jsstring option" where
  "label_value line = map_option (\<lambda>b. grp b 1 2) (search pollsterRe_rtw [] line)"

definition pickPollster_rtw :: "jsstring \<Rightarrow> jsstring" where
  "pickPollster_rtw txt =
     (let lines = text_lines txt in
      case first_some label_value (take 10 lines) of
        Some v \<Rightarrow> take 100 v
      | None \<Rightarrow> (case lines of [] \<Rightarrow> [] | first # rest \<Rightarrow> take 100 first))"

subsection \<open>Race\<close>

text \<open>
  \<^verbatim>\<open>fetch-data.js\<close>:
  \<^verbatim>\<open>const m1 = txt.match(/\b([A-Z][a-z]+)\s+(Senate|Governor)\b/);
  if (m1) return `${m1[1]} ${m1[2]}`;
  const m2 = txt.match(/\b(?:AL|AK|AZ|AR|CA|CO|CT|DE|FL|GA|HI|ID|IL|IN|IA|KS|KY|LA|ME|MD|MA|MI|MN|MS|MO|MT|NE|NV|NH|NJ|NM|NY|NC|ND|OH|OK|OR|PA|RI|SC|SD|TN|TX|UT|VT|VA|WA|WV|WI|WY)\s+(Senate|Governor)\b/);
  if (m2) return `${m2[0]}`;
  if (txt.toLowerCase().includes('generic ballot')) return 'Generic Ballot';
  if (txt.toLowerCase().includes('approval')) return 'Trump Approval';
  return '';\<close>
\<close>

definition office :: regex where
  "office = Alt (lit ''Senate'') (lit ''Governor'')"

definition raceRe1 :: "regex list" where
  "raceRe1 = [WordB, Seq (Cls is_upper) (rplus (Cls is_lower)), rplus sp, office, WordB]"

definition states :: "string list" where
  "states = [''AL'', ''AK'', ''AZ'', ''AR'', ''CA'', ''CO'', ''CT'', ''DE'', ''FL'', ''GA'', ''HI'', ''ID'',
             ''IL'', ''IN'', ''IA'', ''KS'', ''KY'', ''LA'', ''ME'', ''MD'', ''MA'', ''MI'', ''MN'', ''MS'',
             ''MO'', ''MT'', ''NE'', ''NV'', ''NH'', ''NJ'', ''NM'', ''NY'', ''NC'', ''ND'', ''OH'', ''OK'',
             ''OR'', ''PA'', ''RI'', ''SC'', ''SD'', ''TN'', ''TX'', ''UT'', ''VT'', ''VA'', ''WA'', ''WV'',
             ''WI'', ''WY'']"

definition raceRe2 :: "regex list" where
  "raceRe2 = [seqs [WordB, alts (map lit states), rplus sp, office, WordB]]"

definition pickRace_fd :: "jsstring \<Rightarrow> jsstring" where
  "pickRace_fd txt =
     (case search raceRe1 [] txt of
        Some b \<Rightarrow> grp b 1 2 @ js '' '' @ grp b 3 4
      | None \<Rightarrow>
          (case match0 raceRe2 txt of
             Some m \<Rightarrow> m
           | None \<Rightarrow>
               if str_includes (toLowerCase txt) (js ''generic ballot'') then js ''Generic Ballot''
               else if str_includes (toLowerCase txt) (js ''approval'') then js ''Trump Approval''
               else []))"

text \<open>
  \<^verbatim>\<open>fetch-data_RTW2.js\<close>:
  \<^verbatim>\<open>const lines = txt.split(/\n+/).map(clean).filter(Boolean);
  for (const line of lines.slice(0, 12)) {
    if (/(senate|governor|house|president|primary|generic ballot|approval)/i.test(line)) return line.slice(0, 120);
    if (/\b[A-Z]{2}\b.*\b(Senate|Governor)\b/.test(line)) return line.slice(0, 120);
    if (/\b[A-Z]{2}\-\d{2}\b/.test(line)) return line.slice(0, 120); }
  return '';\<close>
\<close>

definition raceKw :: "regex list" where
  "raceKw = [alts (map lit_i [''senate'', ''governor'', ''house'', ''president'', ''primary'',
                              ''generic ballot'', ''approval''])]"

definition raceState :: "regex list" where
  "raceState = [seqs [WordB, Rep 2 (Some 2) (Cls is_upper), WordB, rstar any_chr, WordB, office, WordB]]"

definition raceDistrict :: "regex list" where
  "raceDistrict = [seqs [WordB, Rep 2 (Some 2) (Cls is_upper), chr 45, Rep 2 (Some 2) dg, WordB]]"

definition pickRace_rtw :: "jsstring \<Rightarrow> jsstring" where
  "pickRace_rtw txt =
     (case find (\<lambda>line. re_test raceKw line \<or> re_test raceState line \<or> re_test raceDistrict line)
                (take 12 (text_lines txt)) of
        Some line \<Rightarrow> take 120 line
      | None \<Rightarrow> [])"

subsection \<open>Links\<close>

text \<open>
  \<^verbatim>\<open>fetch-data.js\<close>:
  \<^verbatim>\<open>const isExternalPollUrl = (href) => {
    if (!href) return false;
    const h = href.toLowerCase();
    if (!h.startsWith('http')) return false;
    if (h.includes('racetothewh.com')) return false;
    if (h.includes('twitter.com') || h.includes('x.com')) return false;
    if (h.includes('facebook.com')) return false;
    if (h.includes('instagram.com')) return false;
    if (h.includes('youtube.com')) return false;
    if (h.includes('tiktok.com')) return false;
    return true; };\<close>
\<close>

definition social :: "jsstring \<Rightarrow> bool" where
  "social h = (str_includes h (js ''twitter.com'') \<or> str_includes h (js ''x.com'')
     \<or> str_includes h (js ''facebook.com'') \<or> str_includes h (js ''instagram.com'')
     \<or> str_includes h (js ''youtube.com'') \<or> str_includes h (js ''tiktok.com''))"

definition isExternalPollUrl :: "jsstring \<Rightarrow> bool" where
  "isExternalPollUrl href =
     (if href = [] then False
      else let h = toLowerCase href in
        if \<not> startsWith h (js ''http'') then False
        else if str_includes h (js ''racetothewh.com'') then False
        else if social h then False
        else True)"

text \<open>
  \<^verbatim>\<open>fetch-data_RTW2.js\<close>:
  \<^verbatim>\<open>const isNoiseHref = (href) => {
    if (!href) return true;
    const h = href.toLowerCase();
    if (h.startsWith('#')) return true;
    if (h.startsWith('mailto:') || h.startsWith('tel:')) return true;
    if (h.includes('twitter.com') || h.includes('x.com')) return true;
    if (h.includes('facebook.com')) return true;
    if (h.includes('instagram.com')) return true;
    if (h.includes('youtube.com')) return true;
    if (h.includes('tiktok.com')) return true;
    return false; };\<close>
\<close>

definition isNoiseHref :: "jsstring \<Rightarrow> bool" where
  "isNoiseHref href =
     (if href = [] then True
      else let h = toLowerCase href in
        if startsWith h (js ''#'') then True
        else if startsWith h (js ''mailto:'') \<or> startsWith h (js ''tel:'') then True
        else if social h then True
        else False)"

subsection \<open>Poll-likeness\<close>

text \<open>
  \<^verbatim>\<open>const isLikelyPollBlock = (txt) => {
    if (!txt) return false;
    if (!txt.includes('%')) return false;
    if (txt.length < 25 || txt.length > 2200) return false;
    const t = txt.toLowerCase();
    return /(lv|rv|likely voters|registered voters|n=|poll|survey|approve|disapprove|ballot|senate|governor|house|primary|republican|democrat|gop|dem)/.test(t); };\<close>
  The pattern is an alternation of plain texts without flags, so the test holds when
  one of them occurs in \<open>t\<close>.
\<close>

definition poll_words :: "string list" where
  "poll_words = [''lv'', ''rv'', ''likely voters'', ''registered voters'', ''n='', ''poll'', ''survey'',
                 ''approve'', ''disapprove'', ''ballot'', ''senate'', ''governor'', ''house'', ''primary'',
                 ''republican'', ''democrat'', ''gop'', ''dem'']"

definition isLikelyPollBlock :: "jsstring \<Rightarrow> bool" where
  "isLikelyPollBlock txt =
     (if txt = [] then False
      else if \<not> str_includes txt (js ''%'') then False
      else if length txt < 25 \<or> 2200 < length txt then False
      else list_ex (\<lambda>w. str_includes (toLowerCase txt) (js w)) poll_words)"

text \<open>
  The test of \<^verbatim>\<open>fetch-data.js\<close> on the trimmed text of an ancestor:
  \<^verbatim>\<open>txt.includes('%') && txt.length >= 20 && txt.length <= 1200\<close>.
\<close>

definition looks_like_poll_fd :: "jsstring \<Rightarrow> bool" where
  "looks_like_poll_fd txt = (str_includes txt (js ''%'') \<and> 20 \<le> length txt \<and> length txt \<le> 1200)"

section \<open>Candidate records and the deduplicator\<close>

record poll =
  url :: jsstring
  category :: jsstring
  race :: jsstring
  pollster :: jsstring
  date_text :: jsstring
  sample :: jsstring
  population :: jsstring
  results_text :: jsstring
  results :: "result list"

text \<open>
  \<^verbatim>\<open>function dedupe(polls) {
    const seen = new Set(); const out = [];
    for (const p of polls) {
      const key = `${p.url || ''}|${(p.results_text || '').slice(0, 160)}|${p.date_text || ''}`;
      if (seen.has(key)) continue;
      seen.add(key); out.push(p); }
    return out; }\<close>
  The fields of a record are strings, for which \<^verbatim>\<open>x || ''\<close> is \<open>x\<close>. The separator
  is the vertical bar, code unit 124.
\<close>

definition fingerprint :: "poll \<Rightarrow> jsstring" where
  "fingerprint p = url p @ [124] @ take 160 (results_text p) @ [124] @ date_text p"

fun dedupe_loop :: "jsstring set \<Rightarrow> poll list \<Rightarrow> poll list \<Rightarrow> poll list" where
  "dedupe_loop seen out [] = out"
| "dedupe_loop seen out (p # ps) =
     (if fingerprint p \<in> seen then dedupe_loop seen out ps
      else dedupe_loop (insert (fingerprint p) seen) (out @ [p]) ps)"

definition dedupe :: "poll list \<Rightarrow> poll list" where
  "dedupe polls = dedupe_loop {} [] polls"

section \<open>Block discovery and record assembly\<close>

text \<open>
  The document is the browser's, not the repository's: it is given by the answers to the
  queries that the in-page function makes. A \<open>link\<close> is an \<^verbatim>\<open>a[href]\<close> element with
  its attribute (\<^verbatim>\<open>getAttribute('href')\<close>) and its resolved address (\<^verbatim>\<open>.href\<close>).
  An \<open>element\<close> has an identity, its \<^verbatim>\<open>innerText\<close> (which may be missing) and the
  links inside it in document order (\<^verbatim>\<open>querySelectorAll('a[href]')\<close>). An \<open>anchor\<close>
  is a link of the document together with the answer to
  \<^verbatim>\<open>closest('header, nav, footer')\<close> and with its ancestor chain: the anchor element
  itself, its parent, and so on to the root. A \<open>container\<close> is an element matched by
  \<^verbatim>\<open>'div, li, p, article, section'\<close> with the same answer.
\<close>

record link =
  l_attr :: jsstring
  l_href :: jsstring

record element =
  el_id :: nat
  innerText :: jsval
  el_links :: "link list"

record anchor =
  a_attr :: jsstring
  a_href :: jsstring
  a_chrome :: bool
  a_chain :: "element list"

record container =
  c_el :: element
  c_chrome :: bool

record document =
  anchors :: "anchor list"
  containers :: "container list"

subsection \<open>\<^verbatim>\<open>fetch-data.js\<close>\<close>

text \<open>
  \<^verbatim>\<open>const anchors = Array.from(document.querySelectorAll('a[href]'))
    .filter(a => isExternalPollUrl(a.getAttribute('href')));
  const blocks = [];
  for (const a of anchors) {
    let el = a; let chosen = null;
    for (let i = 0; i < 8 && el; i++) {
      const txt = (el.innerText || '').trim();
      if (txt.includes('%') && txt.length >= 20 && txt.length <= 1200) { chosen = el; break; }
      el = el.parentElement; }
    if (!chosen) continue;
    const txt = chosen.innerText || '';
    const results = extractResults(txt);
    const results_text = clean(txt);
    // If we can't extract any structured result, skip unless it's clearly a poll block.
    if (results.length === 0 && !/%/.test(txt)) continue;
    blocks.push({ url: a.href, category: inferCategory(txt), race: pickRace(txt),
      pollster: pickPollster(txt), date_text: extractDateText(txt), sample: extractSample(txt),
      population: '', results_text, results });
    if (blocks.length >= MAX_POLLS) break; }
  return blocks;\<close>
  \<^verbatim>\<open>MAX_POLLS\<close> is taken as an integer.
\<close>

definition chosen_fd :: "anchor \<Rightarrow> element option" where
  "chosen_fd a = find (\<lambda>el. looks_like_poll_fd (trim (or_empty (innerText el)))) (take 8 (a_chain a))"

definition block_fd :: "anchor \<Rightarrow> jsstring \<Rightarrow> poll" where
  "block_fd a txt =
     \<lparr>url = a_href a, category = inferCategory txt, race = pickRace_fd txt,
      pollster = pickPollster_fd txt, date_text = extractDateText 8 txt,
      sample = extractSample txt, population = [], results_text = clean (Str txt),
      results = extractResults 10 txt\<rparr>"

fun blocks_loop_fd :: "int \<Rightarrow> anchor list \<Rightarrow> poll list \<Rightarrow> poll list" where
  "blocks_loop_fd maxp [] blocks = blocks"
| "blocks_loop_fd maxp (a # as) blocks =
     (case chosen_fd a of
        None \<Rightarrow> blocks_loop_fd maxp as blocks
      | Some chosen \<Rightarrow>
          let txt = or_empty (innerText chosen) in
          if length (extractResults 10 txt) = 0 \<and> \<not> str_includes txt (js ''%'')
          then blocks_loop_fd maxp as blocks
          else if maxp \<le> int (length (blocks @ [block_fd a txt])) then blocks @ [block_fd a txt]
          else blocks_loop_fd maxp as (blocks @ [block_fd a txt]))"

definition blocks_fd :: "int \<Rightarrow> document \<Rightarrow> poll list" where
  "blocks_fd maxp doc =
     blocks_loop_fd maxp (filter (\<lambda>a. isExternalPollUrl (a_attr a)) (anchors doc)) []"

text \<open>
  The list that \<^verbatim>\<open>run\<close> writes: \<^verbatim>\<open>dedupe(polls).slice(0, MAX_POLLS)\<close>; with fewer
  than 10 rows \<^verbatim>\<open>run\<close> throws instead.
\<close>

datatype error = TooFewRows nat | EvaluateFailed

definition polls_fd :: "int \<Rightarrow> document \<Rightarrow> poll list" where
  "polls_fd maxp doc = slice0 maxp (dedupe (blocks_fd maxp doc))"

definition run_fd :: "int \<Rightarrow> document \<Rightarrow> error + poll list" where
  "run_fd maxp doc =
     (if length (polls_fd maxp doc) < 10 then Inl (TooFewRows (length (polls_fd maxp doc)))
      else Inr (polls_fd maxp doc))"

subsection \<open>\<^verbatim>\<open>fetch-data_RTW2.js\<close>\<close>

text \<open>
  The url of a block found from an anchor:
  \<^verbatim>\<open>const links = Array.from(chosen.querySelectorAll('a[href]'))
    .filter(x => !isNoiseHref(x.getAttribute('href'))).map(x => x.href);
  let bestUrl = a.href || '';
  for (const h of links) {
    const hl = String(h).toLowerCase();
    if (hl.startsWith('http') && !hl.includes('racetothewh.com')) { bestUrl = h; break; } }
  if (!bestUrl && links.length) bestUrl = links[0] || '';\<close>
\<close>

definition block_links :: "element \<Rightarrow> jsstring list" where
  "block_links el = map l_href (filter (\<lambda>x. \<not> isNoiseHref (l_attr x)) (el_links el))"

definition external_main :: "jsstring \<Rightarrow> bool" where
  "external_main h =
     (startsWith (toLowerCase h) (js ''http'') \<and> \<not> str_includes (toLowerCase h) (js ''racetothewh.com''))"

fun bestUrl_loop :: "jsstring \<Rightarrow> jsstring list \<Rightarrow> jsstring" where
  "bestUrl_loop bestUrl [] = bestUrl"
| "bestUrl_loop bestUrl (h # hs) = (if external_main h then h else bestUrl_loop bestUrl hs)"

definition bestUrl_main :: "jsstring \<Rightarrow> jsstring list \<Rightarrow> jsstring" where
  "bestUrl_main ahref links =
     (let bestUrl = bestUrl_loop ahref links in
      if bestUrl = [] then (case links of [] \<Rightarrow> bestUrl | h # hs \<Rightarrow> h) else bestUrl)"

text \<open>
  The url of a block found by the fallback pass:
  \<^verbatim>\<open>const bestUrl = links.find(h => h && h.startsWith('http') &&
    !h.toLowerCase().includes('racetothewh.com')) || links[0] || '';\<close>
\<close>

definition external_fb :: "jsstring \<Rightarrow> bool" where
  "external_fb h =
     (h \<noteq> [] \<and> startsWith h (js ''http'') \<and> \<not> str_includes (toLowerCase h) (js ''racetothewh.com''))"

definition bestUrl_fb :: "jsstring list \<Rightarrow> jsstring" where
  "bestUrl_fb links =
     (case find external_fb links of
        Some h \<Rightarrow> h
      | None \<Rightarrow> (case links of [] \<Rightarrow> [] | h # hs \<Rightarrow> h))"

definition block_rtw :: "jsstring \<Rightarrow> jsstring \<Rightarrow> poll" where
  "block_rtw bestUrl txt =
     \<lparr>url = bestUrl, category = inferCategory txt, race = pickRace_rtw txt,
      pollster = pickPollster_rtw txt, date_text = extractDateText 12 txt,
      sample = extractSample txt, population = [], results_text = clean (Str txt),
      results = extractResults 12 txt\<rparr>"

text \<open>
  The pass over the anchors:
  \<^verbatim>\<open>const anchors = Array.from(document.querySelectorAll('a[href]'))
    .filter(a => !a.closest('header, nav, footer'))
    .filter(a => !isNoiseHref(a.getAttribute('href')));
  const blocks = []; const seenEl = new Set();
  for (const a of anchors) {
    let el = a; let chosen = null;
    for (let i = 0; i < 10 && el; i++) {
      const txt = (el.innerText || '').trim();
      if (isLikelyPollBlock(txt)) { chosen = el; break; }
      el = el.parentElement; }
    if (!chosen) continue;
    if (seenEl.has(chosen)) continue;
    seenEl.add(chosen);
    const txt = chosen.innerText || '';
    const results = extractResults(txt);
    if (results.length === 0) continue;
    ... blocks.push({ url: bestUrl, ... results_text: clean(txt), results });
    if (blocks.length >= MAX_POLLS) break; }\<close>
\<close>

definition chosen_rtw :: "anchor \<Rightarrow> element option" where
  "chosen_rtw a = find (\<lambda>el. isLikelyPollBlock (trim (or_empty (innerText el)))) (take 10 (a_chain a))"

fun anchor_loop :: "int \<Rightarrow> anchor list \<Rightarrow> nat set \<Rightarrow> poll list \<Rightarrow> poll list" where
  "anchor_loop maxp [] seenEl blocks = blocks"
| "anchor_loop maxp (a # as) seenEl blocks =
     (case chosen_rtw a of
        None \<Rightarrow> anchor_loop maxp as seenEl blocks
      | Some chosen \<Rightarrow>
          if el_id chosen \<in> seenEl then anchor_loop maxp as seenEl blocks
          else
            let txt = or_empty (innerText chosen) in
            if length (extractResults 12 txt) = 0
            then anchor_loop maxp as (insert (el_id chosen) seenEl) blocks
            else
              let b = block_rtw (bestUrl_main (a_href a) (block_links chosen)) txt in
              if maxp \<le> int (length (blocks @ [b])) then blocks @ [b]
              else anchor_loop maxp as (insert (el_id chosen) seenEl) (blocks @ [b]))"

text \<open>
  The fallback pass over the containers:
  \<^verbatim>\<open>if (blocks.length < 5) {
    const elems = Array.from(document.querySelectorAll('div, li, p, article, section'))
      .filter(el => !el.closest('header, nav, footer')).slice(0, 2500);
    for (const el of elems) {
      const txt = (el.innerText || '').trim();
      if (!isLikelyPollBlock(txt)) continue;
      const results = extractResults(txt);
      if (results.length === 0) continue;
      ... blocks.push({ url: bestUrl, ... results_text: clean(txt), results });
      if (blocks.length >= MAX_POLLS) break; } }
  return blocks;\<close>
\<close>

fun container_loop :: "int \<Rightarrow> element list \<Rightarrow> poll list \<Rightarrow> poll list" where
  "container_loop maxp [] blocks = blocks"
| "container_loop maxp (el # els) blocks =
     (let txt = trim (or_empty (innerText el)) in
      if \<not> isLikelyPollBlock txt then container_loop maxp els blocks
      else if length (extractResults 12 txt) = 0 then container_loop maxp els blocks
      else
        let b = block_rtw (bestUrl_fb (block_links el)) txt in
        if maxp \<le> int (length (blocks @ [b])) then blocks @ [b]
        else container_loop maxp els (blocks @ [b]))"

definition blocks_rtw :: "int \<Rightarrow> document \<Rightarrow> poll list" where
  "blocks_rtw maxp doc =
     (let blocks = anchor_loop maxp
            (filter (\<lambda>a. \<not> isNoiseHref (a_attr a)) (filter (\<lambda>a. \<not> a_chrome a) (anchors doc)))
            {} []
      in if length blocks < 5
         then container_loop maxp
                (take 2500 (map c_el (filter (\<lambda>c. \<not> c_chrome c) (containers doc)))) blocks
         else blocks)"

text \<open>
  A frame either hands its document to the in-page function or its evaluation throws;
  \<^verbatim>\<open>extractPollsInFrame\<close> catches the exception and answers the empty list:
  \<^verbatim>\<open>async function extractPollsInFrame(frame) {
    try { return await frame.evaluate((MAX_POLLS) => { ... return blocks; }, MAX_POLLS); }
    catch (_) { return []; } }\<close>
\<close>

datatype frame = Live document | Broken

fun frame_evaluate :: "int \<Rightarrow> frame \<Rightarrow> error + poll list" where
  "frame_evaluate maxp (Live doc) = Inr (blocks_rtw maxp doc)"
| "frame_evaluate maxp Broken = Inl EvaluateFailed"

definition extractPollsInFrame :: "int \<Rightarrow> frame \<Rightarrow> poll list" where
  "extractPollsInFrame maxp f = (case frame_evaluate maxp f of Inl e \<Rightarrow> [] | Inr part \<Rightarrow> part)"

text \<open>
  \<^verbatim>\<open>let polls = [];
  for (const f of frames) {
    const part = await extractPollsInFrame(f);
    if (Array.isArray(part) && part.length) polls = polls.concat(part); }\<close>
  and then \<^verbatim>\<open>dedupe(polls).slice(0, MAX_POLLS)\<close>, with the same check for 10 rows.
\<close>

fun frames_loop :: "int \<Rightarrow> frame list \<Rightarrow> poll list \<Rightarrow> poll list" where
  "frames_loop maxp [] polls = polls"
| "frames_loop maxp (f # fs) polls =
     (let part = extractPollsInFrame maxp f in
      if length part \<noteq> 0 then frames_loop maxp fs (polls @ part) else frames_loop maxp fs polls)"

definition polls_rtw :: "int \<Rightarrow> frame list \<Rightarrow> poll list" where
  "polls_rtw maxp frames = slice0 maxp (dedupe (frames_loop maxp frames []))"

definition run_rtw :: "int \<Rightarrow> frame list \<Rightarrow> error + poll list" where
  "run_rtw maxp frames =
     (if length (polls_rtw maxp frames) < 10 then Inl (TooFewRows (length (polls_rtw maxp frames)))
      else Inr (polls_rtw maxp frames))"

section \<open>The claims' own notions\<close>

text \<open>
  The definitions of this section are not translations of the source: they spell out
  the words of the specification, to be compared with the source's functions.

  The priority order of the categories, as a list of rules: the category of a text is
  that of the first rule whose test holds of the lower-cased text, and \<open>other\<close>
  without such a rule.
\<close>

definition category_rules :: "((jsstring \<Rightarrow> bool) \<times> jsstring) list" where
  "category_rules =
     [(\<lambda>t. str_includes t (js ''generic ballot''), js ''generic_ballot''),
      (\<lambda>t. str_includes t (js ''approval''), js ''approval''),
      (\<lambda>t. str_includes t (js ''senate''), js ''senate''),
      (\<lambda>t. str_includes t (js ''governor''), js ''governor''),
      (\<lambda>t. str_includes t (js ''house''), js ''house''),
      (\<lambda>t. str_includes t (js ''democratic'') \<and> str_includes t (js ''primary''), js ''dem_primary''),
      (\<lambda>t. str_includes t (js ''republican'') \<and> str_includes t (js ''primary''), js ''gop_primary''),
      (\<lambda>t. str_includes t (js ''general election''), js ''pres_general''),
      (\<lambda>t. str_includes t (js ''president'') \<or> str_includes t (js ''presidential''), js ''president'')]"

definition first_rule :: "jsstring \<Rightarrow> jsstring" where
  "first_rule t = (case find (\<lambda>r. fst r t) category_rules of Some r \<Rightarrow> snd r | None \<Rightarrow> js ''other'')"

definition categories :: "jsstring list" where
  "categories = map js [''generic_ballot'', ''approval'', ''senate'', ''governor'', ''house'',
                        ''dem_primary'', ''gop_primary'', ''pres_general'', ''president'', ''other'']"






text \<open>The positions of the match of the fallback pattern in the text "47-43".\<close>

definition ex_margin :: "pos list" where
  "ex_margin = [([], js ''47-43''), ([], js ''47-43''), (rev (js ''47''), js ''-43''),
                (rev (js ''47-''), js ''43''), (rev (js ''47-43''), []), (rev (js ''47-43''), [])]"

text \<open>
  The url that the specification selects for a block: the first link inside the block
  that is external, before the anchor's own address \<open>own\<close> (empty when the block was
  not found from an anchor), before any link inside the block, before the empty string.
\<close>

definition spec_url :: "(jsstring \<Rightarrow> bool) \<Rightarrow> jsstring \<Rightarrow> jsstring list \<Rightarrow> jsstring" where
  "spec_url ext own links =
     (case find ext links of
        Some h \<Rightarrow> h
      | None \<Rightarrow> if own \<noteq> [] then own else (case links of [] \<Rightarrow> [] | h # hs \<Rightarrow> h))"

text \<open>
  Documents for the examples. In \<open>ex_doc\<close> two external links stand in one block; each
  anchor is its own first ancestor, with the text of the link, and the block is the
  next one. In \<open>ex_turnout\<close> the block has a percent sign and no result.
\<close>

definition ex_link :: "string \<Rightarrow> link" where
  "ex_link h = \<lparr>l_attr = js h, l_href = js h\<rparr>"

definition ex_block :: element where
  "ex_block = \<lparr>el_id = 3, innerText = Str (js ''Gallup poll: Smith 47% Jones 43%''),
                el_links = [ex_link ''https://a.example/1'', ex_link ''https://b.example/2'']\<rparr>"

definition ex_anchor :: "nat \<Rightarrow> string \<Rightarrow> string \<Rightarrow> element \<Rightarrow> anchor" where
  "ex_anchor i h t el =
     \<lparr>a_attr = js h, a_href = js h, a_chrome = False,
      a_chain = [\<lparr>el_id = i, innerText = Str (js t), el_links = []\<rparr>, el]\<rparr>"

definition ex_doc :: document where
  "ex_doc = \<lparr>anchors = [ex_anchor 1 ''https://a.example/1'' ''Gallup'' ex_block,
                         ex_anchor 2 ''https://b.example/2'' ''source'' ex_block],
             containers = []\<rparr>"

definition ex_turnout :: document where
  "ex_turnout =
     \<lparr>anchors = [ex_anchor 1 ''https://a.example/1'' ''County report''
                   \<lparr>el_id = 2, innerText = Str (js ''Turnout was 100% in county''), el_links = []\<rparr>],
      containers = []\<rparr>"


section \<open>Properties of the string operations\<close>

lemma startsWith_iff: "startsWith s n \<longleftrightarrow> (\<exists>b. s = n @ b)"
  by (induction s n rule: startsWith.induct) auto

lemma str_includes_iff: "str_includes s n \<longleftrightarrow> (\<exists>a b. s = a @ n @ b)"
proof (induction s)
  case Nil
  then show ?case by auto
next
  case (Cons c cs)
  show ?case
  proof
    assume "str_includes (c # cs) n"
    then have "startsWith (c # cs) n \<or> str_includes cs n" by simp
    then show "\<exists>a b. c # cs = a @ n @ b"
    proof
      assume "startsWith (c # cs) n"
      then obtain b where "c # cs = n @ b" using startsWith_iff by blast
      then have "c # cs = [] @ n @ b" by simp
      then show ?thesis by blast
    next
      assume "str_includes cs n"
      with Cons.IH obtain a b where "cs = a @ n @ b" by blast
      then have "c # cs = (c # a) @ n @ b" by simp
      then show ?thesis by blast
    qed
  next
    assume "\<exists>a b. c # cs = a @ n @ b"
    then obtain a b where ab: "c # cs = a @ n @ b" by blast
    show "str_includes (c # cs) n"
    proof (cases a)
      case Nil
      with ab have "startsWith (c # cs) n" using startsWith_iff by auto
      then show ?thesis by simp
    next
      case (Cons x xs)
      with ab have "cs = xs @ n @ b" by simp
      with Cons.IH have "str_includes cs n" by blast
      then show ?thesis by simp
    qed
  qed
qed

lemma toLowerCase_append: "toLowerCase (a @ b) = toLowerCase a @ toLowerCase b"
  by (simp add: toLowerCase_def)

lemma str_includes_lower:
  "str_includes txt u \<Longrightarrow> str_includes (toLowerCase txt) (toLowerCase u)"
  unfolding str_includes_iff toLowerCase_def by (metis concat_append map_append)


lemmas str_ev = js_def toLowerCase_def lower_unit_def is_upper_def is_lower_def

section \<open>The text normalizer is idempotent\<close>

text \<open>
  \<open>sep\<close> holds of a text whose only white space is the space character and in which no
  two white-space code units are adjacent.
\<close>

fun sep :: "jsstring \<Rightarrow> bool" where
  "sep [] = True"
| "sep [c] = (is_space c \<longrightarrow> c = 32)"
| "sep (a # b # r) = ((is_space a \<longrightarrow> a = 32 \<and> \<not> is_space b) \<and> sep (b # r))"

lemma space32: "is_space 32" by (simp add: is_space_def)

lemma collapse_hd: "\<not> is_space c \<Longrightarrow> collapse_ws (c # cs) = c # collapse_ws cs" by simp

lemma sep_collapse: "sep (collapse_ws s)"
proof (induction s rule: collapse_ws.induct)
  case 1 show ?case by simp
next
  case (2 c cs)
  show ?case
  proof (cases "is_space c")
    case True
    show ?thesis
    proof (cases "dropWhile is_space cs")
      case Nil
      from True have "collapse_ws (c # cs) = 32 # collapse_ws (dropWhile is_space cs)" by simp
      also have "\<dots> = [32]" unfolding Nil by simp
      finally show ?thesis by (simp add: space32)
    next
      case (Cons d ds)
      then have nd: "\<not> is_space d" by (metis hd_dropWhile list.sel(1) list.distinct(1))
      from 2(1)[OF True] Cons nd True show ?thesis by simp
    qed
  next
    case False
    with 2(2) show ?thesis by (cases cs) auto
  qed
qed

lemma sep_fix: "sep s \<Longrightarrow> collapse_ws s = s"
proof (induction s rule: sep.induct)
  case 1 show ?case by simp
next
  case (2 c) then show ?case by auto
next
  case (3 a b r)
  then show ?case by (cases "is_space a") auto
qed


lemma sep_append: "sep (a @ b) \<Longrightarrow> sep a \<and> sep b"
proof (induction a rule: sep.induct)
  case 1 then show ?case by simp
next
  case (2 c) then show ?case by (cases b) auto
next
  case (3 x y r) then show ?case by auto
qed


lemma trim_end_prefix: "\<exists>t. s = rev (dropWhile P (rev s)) @ t"
  by (metis rev_append rev_rev_ident takeWhile_dropWhile_id)

lemma trim_start_suffix: "\<exists>t. s = t @ dropWhile P s"
  by (metis takeWhile_dropWhile_id)

lemma last_trim: "trim s = r @ [c] \<Longrightarrow> \<not> is_space c"
proof -
  assume "trim s = r @ [c]"
  then have "dropWhile is_space (rev (dropWhile is_space s)) = c # rev r"
    unfolding trim_def by (metis rev_eq_Cons_iff rev_rev_ident)
  then show ?thesis by (metis hd_dropWhile list.sel(1) list.distinct(1))
qed

lemma hd_trim: "trim s = c # r \<Longrightarrow> \<not> is_space c"
proof -
  assume a: "trim s = c # r"
  obtain t where "dropWhile is_space s = trim s @ t"
    unfolding trim_def using trim_end_prefix by blast
  with a have "dropWhile is_space s = c # (r @ t)" by simp
  then show ?thesis by (metis hd_dropWhile list.sel(1) list.distinct(1))
qed

lemma sep_trim: "sep s \<Longrightarrow> sep (trim s)"
proof -
  assume s: "sep s"
  obtain a where a: "s = a @ dropWhile is_space s" using trim_start_suffix by blast
  obtain t where t: "dropWhile is_space s = trim s @ t"
    unfolding trim_def using trim_end_prefix by blast
  from s a have "sep (dropWhile is_space s)" by (metis sep_append)
  with t show ?thesis by (metis sep_append)
qed

lemma trim_fix: "(\<And>c r. s = c # r \<Longrightarrow> \<not> is_space c) \<Longrightarrow> (\<And>c r. s = r @ [c] \<Longrightarrow> \<not> is_space c) \<Longrightarrow> trim s = s"
proof -
  assume h: "\<And>c r. s = c # r \<Longrightarrow> \<not> is_space c" and l: "\<And>c r. s = r @ [c] \<Longrightarrow> \<not> is_space c"
  have 1: "dropWhile is_space s = s" using h by (cases s) auto
  have 2: "dropWhile is_space (rev s) = rev s" using l by (cases s rule: rev_cases) auto
  show ?thesis unfolding trim_def 1 2 by simp
qed

lemma trim_trim: "trim (trim s) = trim s"
  by (rule trim_fix) (auto dest: hd_trim last_trim)

lemma sep_clean: "sep (clean v)"
  unfolding clean_def by (rule sep_trim) (rule sep_collapse)

lemma clean_idem: "clean (Str (clean v)) = clean v"
proof -
  have "clean (Str (clean v)) = trim (collapse_ws (clean v))" by (simp add: clean_def)
  also have "\<dots> = trim (clean v)" using sep_fix[OF sep_clean] by simp
  also have "\<dots> = clean v" unfolding clean_def by (rule trim_trim)
  finally show ?thesis .
qed

lemma sep_no_double: "sep s \<Longrightarrow> s \<noteq> a @ x # y # b \<or> \<not> is_space x \<or> \<not> is_space y"
proof (induction a arbitrary: s)
  case Nil then show ?case by (cases s) auto
next
  case (Cons z zs)
  show ?case
  proof (cases s)
    case Nil then show ?thesis by simp
  next
    case (Cons h t)
    with Cons.prems have "sep t" using sep_append[of "[h]" t] by simp
    from Cons.IH[OF this] Cons show ?thesis by auto
  qed
qed

text \<open>
  Claim C6. The text normalizer is total: a missing value or the empty string gives the
  empty string. For every input its output has no two consecutive spaces (indeed no two
  consecutive white-space code units), no leading and no trailing white space, and
  normalizing the output again changes nothing.
\<close>

theorem clean_spec:
  "clean Undefined = [] \<and> clean Null = [] \<and> clean (Str []) = []
   \<and> (\<nexists>a b. clean v = a @ [32, 32] @ b)
   \<and> (\<nexists>a x y b. clean v = a @ [x, y] @ b \<and> is_space x \<and> is_space y)
   \<and> (\<nexists>c r. clean v = c # r \<and> is_space c)
   \<and> (\<nexists>c r. clean v = r @ [c] \<and> is_space c)
   \<and> clean (Str (clean v)) = clean v"
proof -
  have e: "clean Undefined = [] \<and> clean Null = [] \<and> clean (Str []) = []"
    by (simp add: clean_def trim_def)
  have d: "\<nexists>a x y b. clean v = a @ [x, y] @ b \<and> is_space x \<and> is_space y"
    using sep_no_double[OF sep_clean, of v] by auto
  then have d32: "\<nexists>a b. clean v = a @ [32, 32] @ b" using space32 by blast
  have h: "\<nexists>c r. clean v = c # r \<and> is_space c" unfolding clean_def using hd_trim by blast
  have l: "\<nexists>c r. clean v = r @ [c] \<and> is_space c" unfolding clean_def using last_trim by blast
  from e d d32 h l clean_idem show ?thesis by blast
qed

section \<open>The deduplicator\<close>

text \<open>
  \<open>keep_new seen ps\<close> is what the loop of \<open>dedupe\<close> appends to \<open>out\<close> when it runs
  over \<open>ps\<close> with the fingerprints \<open>seen\<close>.
\<close>

fun keep_new :: "jsstring set \<Rightarrow> poll list \<Rightarrow> poll list" where
  "keep_new seen [] = []"
| "keep_new seen (p # ps) =
     (if fingerprint p \<in> seen then keep_new seen ps
      else p # keep_new (insert (fingerprint p) seen) ps)"

lemma dedupe_loop_keep: "dedupe_loop seen out ps = out @ keep_new seen ps"
  by (induction ps arbitrary: seen out) auto

lemma dedupe_keep: "dedupe ps = keep_new {} ps"
  by (simp add: dedupe_def dedupe_loop_keep)









section \<open>A failing frame\<close>

lemma frames_loop_concat:
  "frames_loop maxp fs polls = polls @ concat (map (extractPollsInFrame maxp) fs)"
  by (induction fs arbitrary: polls) (auto simp: Let_def)







section \<open>The texts that the patterns of the results extraction consume\<close>

lemma lang_Cls: "w \<in> lang (Cls p) \<longleftrightarrow> (\<exists>c. w = [c] \<and> p c)"
  by auto

lemma concat_singletons:
  "set ws \<subseteq> lang (Cls p) \<Longrightarrow> length (concat ws) = length ws \<and> list_all p (concat ws)"
  by (induction ws) auto

lemma lang_Rep_Cls:
  assumes "w \<in> lang (Rep mn mx (Cls p))"
  shows "list_all p w \<and> (case mx of None \<Rightarrow> mn \<le> length w | Some m \<Rightarrow> min mn m \<le> length w \<and> length w \<le> m)"
proof -
  from assms obtain ws where ws: "w = concat ws" "set ws \<subseteq> lang (Cls p)"
    "(case mx of None \<Rightarrow> mn \<le> length ws | Some m \<Rightarrow> min mn m \<le> length ws \<and> length ws \<le> m)"
    unfolding lang.simps by blast
  from concat_singletons[OF ws(2)] ws(1,3) show ?thesis by (cases mx) simp_all
qed

lemma lang_rplus_Cls: "w \<in> lang (rplus (Cls p)) \<Longrightarrow> w \<noteq> [] \<and> list_all p w"
  using lang_Rep_Cls[of w 1 None p] by (auto simp: rplus_def)


lemma lang_ropt: "w \<in> lang (ropt e) \<Longrightarrow> w = [] \<or> w \<in> lang e"
proof -
  assume "w \<in> lang (ropt e)"
  then obtain ws where ws: "w = concat ws" "set ws \<subseteq> lang e" "length ws \<le> 1"
    unfolding ropt_def lang.simps by auto
  show ?thesis
  proof (cases ws)
    case Nil with ws show ?thesis by simp
  next
    case (Cons x xs)
    with ws(3) have "xs = []" by simp
    with Cons ws show ?thesis by simp
  qed
qed

lemma lang_Seq: "w \<in> lang (Seq a b) \<Longrightarrow> \<exists>u v. w = u @ v \<and> u \<in> lang a \<and> v \<in> lang b"
  by auto

text \<open>
  The shape of a percentage literal: one or two digits, then possibly a period and at
  least one digit.
\<close>

definition pct_literal :: "jsstring \<Rightarrow> bool" where
  "pct_literal w = (\<exists>d f. w = d @ f \<and> d \<noteq> [] \<and> length d \<le> 2 \<and> list_all is_digit d
     \<and> (f = [] \<or> (\<exists>ds. f = 46 # ds \<and> ds \<noteq> [] \<and> list_all is_digit ds)))"

lemma lang_re_num: "w \<in> lang re_num \<Longrightarrow> pct_literal w"
proof -
  assume "w \<in> lang re_num"
  then obtain d f where w: "w = d @ f" and d: "d \<in> lang (Rep 1 (Some 2) dg)"
    and f: "f \<in> lang (ropt (Seq (chr 46) (rplus dg)))"
    unfolding re_num_def using lang_Seq by blast
  from lang_Rep_Cls[OF d[unfolded dg_def]] have d': "list_all is_digit d" "1 \<le> length d" "length d \<le> 2"
    by auto
  from lang_ropt[OF f] have "f = [] \<or> (\<exists>ds. f = 46 # ds \<and> ds \<noteq> [] \<and> list_all is_digit ds)"
  proof
    assume "f = []" then show ?thesis by simp
  next
    assume "f \<in> lang (Seq (chr 46) (rplus dg))"
    then obtain u v where "f = u @ v" "u \<in> lang (chr 46)" "v \<in> lang (rplus dg)"
      using lang_Seq by blast
    with lang_chr[of u 46] lang_rplus_Cls[of v is_digit] show ?thesis by (auto simp: dg_def)
  qed
  with w d' show ?thesis unfolding pct_literal_def by (intro exI[of _ d] exI[of _ f]) auto
qed

lemma digits_val_snoc: "digits_val (ds @ [c]) = 10 * digits_val ds + (c - 48)"
  by (simp add: digits_val_def)

lemma digits_val_bound: "list_all is_digit ds \<Longrightarrow> digits_val ds < 10 ^ length ds"
proof (induction ds rule: rev_induct)
  case Nil
  show ?case by (simp add: digits_val_def)
next
  case (snoc c ds)
  then have "digits_val ds < 10 ^ length ds" and "c - 48 \<le> 9" by (auto simp: is_digit_def)
  then have "10 * digits_val ds + (c - 48) < 10 * 10 ^ length ds" by simp
  then show ?case by (simp add: digits_val_snoc)
qed

lemma Number_pct_literal:
  assumes "pct_literal w"
  shows "\<exists>q. Number w = Some q \<and> 0 \<le> q \<and> q < 100"
proof -
  from assms obtain d f where w: "w = d @ f" and d: "d \<noteq> []" "length d \<le> 2" "list_all is_digit d"
    and f: "f = [] \<or> (\<exists>ds. f = 46 # ds \<and> ds \<noteq> [] \<and> list_all is_digit ds)"
    unfolding pct_literal_def by blast
  from digits_val_bound[OF d(3)] d(2) have "digits_val d < 10 ^ 2"
    by (meson le_less_trans less_le_trans one_less_numeral_iff power_increasing semiring_norm(76) less_imp_le)
  then have dv: "digits_val d \<le> 99" by simp
  from d(3) have dw: "dropWhile is_digit d = []" "takeWhile is_digit d = d"
    by (auto simp: list_all_iff)
  from f show ?thesis
  proof
    assume "f = []"
    with w d(1) have "Number w = Some (of_nat (digits_val d))"
      by (simp add: Number_def dw(1) del: dropWhile_eq_Nil_conv)
    moreover have "(of_nat (digits_val d) :: rat) < 100" using dv by simp
    ultimately show ?thesis by simp
  next
    assume "\<exists>ds. f = 46 # ds \<and> ds \<noteq> [] \<and> list_all is_digit ds"
    then obtain ds where ds: "f = 46 # ds" "ds \<noteq> []" "list_all is_digit ds" by blast
    have nd: "\<not> is_digit 46" by (simp add: is_digit_def)
    from d(3) nd have dr: "dropWhile is_digit (d @ 46 # ds) = 46 # ds"
      by (simp add: dropWhile_append3 list_all_iff)
    from d(3) nd have tk: "takeWhile is_digit (d @ 46 # ds) = d"
      by (simp add: takeWhile_append2 list_all_iff)
    from w ds d(1) have n: "Number w = Some (of_nat (digits_val d) + of_nat (digits_val ds) / 10 ^ length ds)"
      by (simp add: Number_def dr tk)
    from digits_val_bound[OF ds(3)] have "(of_nat (digits_val ds) :: rat) < 10 ^ length ds"
      by (metis of_nat_less_iff of_nat_numeral of_nat_power)
    then have fr: "(of_nat (digits_val ds) :: rat) / 10 ^ length ds < 1" by simp
    have nn: "0 \<le> (of_nat (digits_val ds) :: rat) / 10 ^ length ds" by simp
    have dq: "(of_nat (digits_val d) :: rat) \<le> 99" using dv by simp
    have up: "(of_nat (digits_val d) :: rat) + of_nat (digits_val ds) / 10 ^ length ds < 100"
      using fr dq by linarith
    have lo: "0 \<le> (of_nat (digits_val d) :: rat) + of_nat (digits_val ds) / 10 ^ length ds"
      using nn by (meson add_nonneg_nonneg of_nat_0_le_iff)
    from n up lo show ?thesis by blast
  qed
qed

lemma Number_re_num: "w \<in> lang re_num \<Longrightarrow> \<exists>q. Number w = Some q \<and> 0 \<le> q \<and> q < 100"
  using lang_re_num Number_pct_literal by blast

section \<open>Evaluation\<close>

text \<open>The equations by which the functions of the model are run on a given text.\<close>

lemmas chr_ev = js_def is_space_def is_digit_def is_upper_def is_lower_def is_alpha_def is_word_def
  is_name_char_def upper_ascii_def

lemmas re_ev = matches.simps(6) first_match_def grp_def between_def chr_def chr_i_def lit_def
  lit_i_def never_def alts_def rplus_def rstar_def ropt_def seqs_def sp_def dg_def any_chr_def
  dash_def

lemmas res_ev = re_word_def re_name_def re_num_def re_primary_def re_fallback_def
  primary_loop.simps push_result_def fallback_def extractResults_def Number_def digits_val_def
  clean_def trim_def Let_def

lemmas doc_ev = ex_link_def ex_block_def ex_anchor_def ex_doc_def ex_turnout_def
  blocks_fd_def chosen_fd_def looks_like_poll_fd_def isExternalPollUrl_def social_def
  blocks_rtw_def chosen_rtw_def isLikelyPollBlock_def poll_words_def isNoiseHref_def
  block_links_def bestUrl_main_def external_main_def toLowerCase_def lower_unit_def
  polls_fd_def dedupe_def slice0_def


section \<open>Properties of the results extraction\<close>

lemma primary_match:
  assumes "search re_primary l r = Some b"
  shows "\<exists>z0 z1 z2 z3 z4 w0 w1 w2 w3 u. b = [z0, z1, z2, z3, z4]
     \<and> step u (l, r) z0 \<and> step w0 z0 z1 \<and> step w1 z1 z2 \<and> step w2 z2 z3 \<and> step w3 z3 z4
     \<and> w0 \<in> lang re_name \<and> w1 \<in> lang (rplus sp) \<and> w2 \<in> lang re_num
     \<and> w3 \<in> lang (Seq (rstar sp) (chr 37))"
proof -
  from search_chain[OF assms] obtain u where c: "chain re_primary b" and u: "step u (l, r) (hd b)"
    by blast
  from chain4[OF c[unfolded re_primary_def]] obtain z0 z1 z2 z3 z4 where
    b: "b = [z0, z1, z2, z3, z4]" and m0: "z1 \<in> set (matches re_name z0)"
    and m1: "z2 \<in> set (matches (rplus sp) z1)" and m2: "z3 \<in> set (matches re_num z2)"
    and m3: "z4 \<in> set (matches (Seq (rstar sp) (chr 37)) z3)" by blast
  from matches_sound[OF m0] obtain w0 where s0: "w0 \<in> lang re_name" "step w0 z0 z1" by blast
  from matches_sound[OF m1] obtain w1 where s1: "w1 \<in> lang (rplus sp)" "step w1 z1 z2" by blast
  from matches_sound[OF m2] obtain w2 where s2: "w2 \<in> lang re_num" "step w2 z2 z3" by blast
  from matches_sound[OF m3] obtain w3 where s3: "w3 \<in> lang (Seq (rstar sp) (chr 37))" "step w3 z3 z4"
    by blast
  from b u have "step u (l, r) z0" by simp
  with b s0 s1 s2 s3 show ?thesis by blast
qed

lemma primary_groups:
  assumes "search re_primary l r = Some b"
  shows "grp b 0 1 \<in> lang re_name \<and> grp b 2 3 \<in> lang re_num"
proof -
  from primary_match[OF assms] obtain z0 z1 z2 z3 z4 w0 w2 where
    b: "b = [z0, z1, z2, z3, z4]" and s: "step w0 z0 z1" "step w2 z2 z3"
    and l: "w0 \<in> lang re_name" "w2 \<in> lang re_num" by blast
  from b step_between[OF s(1)] step_between[OF s(2)] have "grp b 0 1 = w0" "grp b 2 3 = w2"
    by (simp_all add: grp_def)
  with l show ?thesis by simp
qed

lemma push_result_eq:
  assumes "search re_primary l r = Some b"
  shows "\<exists>q. 0 \<le> q \<and> q < 100 \<and> Number (grp b 2 3) = Some q
     \<and> push_result b out = out @ [\<lparr>choice = clean (Str (grp b 0 1)), pct = q\<rparr>]"
proof -
  from primary_groups[OF assms] have "grp b 2 3 \<in> lang re_num" by simp
  from Number_re_num[OF this] obtain q where "Number (grp b 2 3) = Some q" "0 \<le> q" "q < 100" by blast
  then show ?thesis by (auto simp: push_result_def)
qed


lemma fallback_match:
  assumes "search re_fallback [] txt = Some b"
  shows "grp b 1 2 \<in> lang re_num \<and> grp b 3 4 \<in> lang re_num"
proof -
  from search_chain[OF assms] have c: "chain re_fallback b" by blast
  then obtain z0 z1 z2 z3 z4 z5 where b: "b = [z0, z1, z2, z3, z4, z5]"
    and m1: "z2 \<in> set (matches re_num z1)" and m3: "z4 \<in> set (matches re_num z3)"
    unfolding re_fallback_def by auto
  from matches_sound[OF m1] obtain w1 where s1: "w1 \<in> lang re_num" "step w1 z1 z2" by blast
  from matches_sound[OF m3] obtain w3 where s3: "w3 \<in> lang re_num" "step w3 z3 z4" by blast
  from b step_between[OF s1(2)] step_between[OF s3(2)] have "grp b 1 2 = w1" "grp b 3 4 = w3"
    by (simp_all add: grp_def)
  with s1 s3 show ?thesis by simp
qed




section \<open>The names that the results pattern captures\<close>












section \<open>The bound of the loop and the fallback\<close>






lemma primary_loop_prefix: "\<exists>t. primary_loop cap l r out = out @ t"
proof (induction cap l r out rule: primary_loop.induct)
  case (1 cap l r out)
  show ?case
  proof (cases "search re_primary l r")
    case None
    then show ?thesis by (simp add: primary_loop.simps)
  next
    case (Some b)
    from push_result_eq[OF Some, of out] obtain x where x: "push_result b out = out @ [x]" by blast
    show ?thesis
    proof (cases "cap \<le> length (push_result b out)")
      case True
      with Some x show ?thesis by (simp add: primary_loop.simps)
    next
      case False
      from 1[OF Some False] x obtain t where
        "primary_loop cap (fst (b ! 4)) (snd (b ! 4)) (push_result b out) = out @ x # t" by auto
      with Some False show ?thesis by (simp add: primary_loop.simps)
    qed
  qed
qed

lemma primary_empty_iff: "primary_loop cap l r [] = [] \<longleftrightarrow> search re_primary l r = None"
proof
  assume e: "primary_loop cap l r [] = []"
  show "search re_primary l r = None"
  proof (rule ccontr)
    assume "search re_primary l r \<noteq> None"
    then obtain b where b: "search re_primary l r = Some b" by auto
    from push_result_eq[OF b, of "[]"] obtain x where x: "push_result b [] = [x]" by auto
    have "primary_loop cap l r [] \<noteq> []"
    proof (cases "cap \<le> length (push_result b [])")
      case True
      with b x show ?thesis by (simp add: primary_loop.simps)
    next
      case False
      from primary_loop_prefix[of cap "fst (b ! 4)" "snd (b ! 4)" "[x]"] obtain t where
        "primary_loop cap (fst (b ! 4)) (snd (b ! 4)) [x] = x # t" by auto
      with b False x show ?thesis by (simp add: primary_loop.simps)
    qed
    with e show False by simp
  qed
next
  assume "search re_primary l r = None"
  then show "primary_loop cap l r [] = []" by (simp add: primary_loop.simps)
qed

lemma primary_needs_percent:
  assumes "search re_primary l r = Some b"
  shows "37 \<in> set r"
proof -
  from primary_match[OF assms] obtain z0 z1 z2 z3 z4 w0 w1 w2 w3 u where
    s: "step u (l, r) z0" "step w0 z0 z1" "step w1 z1 z2" "step w2 z2 z3" "step w3 z3 z4"
    and l3: "w3 \<in> lang (Seq (rstar sp) (chr 37))" by blast
  from l3 obtain v where "w3 = v @ [37]" by (auto dest: lang_chr)
  with s show ?thesis by (auto simp: step_def)
qed

lemma str_includes_single: "str_includes s [c] \<longleftrightarrow> c \<in> set s"
  by (induction s) auto

lemma no_percent_no_primary:
  "\<not> str_includes txt (js ''%'') \<Longrightarrow> primary_loop cap [] txt [] = []"
proof -
  assume "\<not> str_includes txt (js ''%'')"
  then have "37 \<notin> set txt" by (simp add: js_def str_includes_single)
  with primary_needs_percent[of "[]" "txt"] have "search re_primary [] txt = None"
    by (cases "search re_primary [] txt") auto
  then show ?thesis by (simp add: primary_empty_iff)
qed

lemma fallback_entries:
  assumes "search re_fallback [] txt = Some b"
  shows "\<exists>a c. Number (grp b 1 2) = Some a \<and> Number (grp b 3 4) = Some c
     \<and> pct_literal (grp b 1 2) \<and> pct_literal (grp b 3 4)
     \<and> fallback txt = [\<lparr>choice = js ''A'', pct = a\<rparr>, \<lparr>choice = js ''B'', pct = c\<rparr>]"
proof -
  from fallback_match[OF assms] have m: "grp b 1 2 \<in> lang re_num" "grp b 3 4 \<in> lang re_num" by auto
  from m Number_re_num obtain a c where n: "Number (grp b 1 2) = Some a" "Number (grp b 3 4) = Some c"
    by blast
  with assms have "fallback txt = [\<lparr>choice = js ''A'', pct = a\<rparr>, \<lparr>choice = js ''B'', pct = c\<rparr>]"
    by (simp add: fallback_def)
  with n m lang_re_num show ?thesis by blast
qed

section \<open>Properties of block discovery and record assembly\<close>

lemma bestUrl_loop_find:
  "bestUrl_loop own links = (case find external_main links of Some h \<Rightarrow> h | None \<Rightarrow> own)"
  by (induction links) auto

lemma bestUrl_main_spec: "bestUrl_main own links = spec_url external_main own links"
proof (cases "find external_main links")
  case None
  then show ?thesis
    by (auto simp: bestUrl_main_def spec_url_def bestUrl_loop_find Let_def split: list.splits)
next
  case (Some h)
  then have "external_main h" by (auto simp: find_Some_iff)
  then have "h \<noteq> []" by (auto simp: external_main_def toLowerCase_def js_def)
  with Some show ?thesis
    by (simp add: bestUrl_main_def spec_url_def bestUrl_loop_find Let_def)
qed

lemma bestUrl_fb_spec: "bestUrl_fb links = spec_url external_fb [] links"
  by (simp add: bestUrl_fb_def spec_url_def)

lemma url_block_rtw: "url (block_rtw u t) = u"
  by (simp add: block_rtw_def)

lemma url_block_fd: "url (block_fd a t) = a_href a"
  by (simp add: block_fd_def)

lemma results_block_rtw: "results (block_rtw u t) = extractResults 12 t"
  by (simp add: block_rtw_def)

lemma results_block_fd: "results (block_fd a t) = extractResults 10 t"
  by (simp add: block_fd_def)

lemma text_block_fd: "results_text (block_fd a t) = clean (Str t)"
  by (simp add: block_fd_def)

text \<open>What the loops add: \<open>P\<close> holds of every record when it holds of every record pushed.\<close>

lemma anchor_loop_all:
  assumes "list_all P blocks"
    and "\<And>a el. a \<in> set as \<Longrightarrow> chosen_rtw a = Some el \<Longrightarrow>
           extractResults 12 (or_empty (innerText el)) \<noteq> [] \<Longrightarrow>
           P (block_rtw (bestUrl_main (a_href a) (block_links el)) (or_empty (innerText el)))"
  shows "list_all P (anchor_loop maxp as seenEl blocks)"
  using assms
proof (induction as arbitrary: seenEl blocks)
  case Nil
  then show ?case by simp
next
  case (Cons a as)
  have step: "\<And>s b. list_all P b \<Longrightarrow> list_all P (anchor_loop maxp as s b)"
    using Cons.IH Cons.prems(2) by simp
  show ?case
  proof (cases "chosen_rtw a")
    case None
    with step[OF Cons.prems(1)] show ?thesis by simp
  next
    case (Some el)
    show ?thesis
    proof (cases "el_id el \<in> seenEl \<or> extractResults 12 (or_empty (innerText el)) = []")
      case True
      with Some step[OF Cons.prems(1)] show ?thesis by (auto simp: Let_def)
    next
      case False
      then have "P (block_rtw (bestUrl_main (a_href a) (block_links el)) (or_empty (innerText el)))"
        using Cons.prems(2)[of a el] Some by simp
      with Cons.prems(1) have
        "list_all P (blocks @ [block_rtw (bestUrl_main (a_href a) (block_links el)) (or_empty (innerText el))])"
        by simp
      with step[OF this] Some False show ?thesis by (auto simp: Let_def)
    qed
  qed
qed

lemma container_loop_all:
  assumes "list_all P blocks"
    and "\<And>el. el \<in> set els \<Longrightarrow> isLikelyPollBlock (trim (or_empty (innerText el))) \<Longrightarrow>
           extractResults 12 (trim (or_empty (innerText el))) \<noteq> [] \<Longrightarrow>
           P (block_rtw (bestUrl_fb (block_links el)) (trim (or_empty (innerText el))))"
  shows "list_all P (container_loop maxp els blocks)"
  using assms
proof (induction els arbitrary: blocks)
  case Nil
  then show ?case by simp
next
  case (Cons el els)
  have step: "\<And>b. list_all P b \<Longrightarrow> list_all P (container_loop maxp els b)"
    using Cons.IH Cons.prems(2) by simp
  show ?case
  proof (cases "isLikelyPollBlock (trim (or_empty (innerText el)))
                \<and> extractResults 12 (trim (or_empty (innerText el))) \<noteq> []")
    case False
    with step[OF Cons.prems(1)] show ?thesis by (auto simp: Let_def)
  next
    case True
    then have "P (block_rtw (bestUrl_fb (block_links el)) (trim (or_empty (innerText el))))"
      using Cons.prems(2)[of el] by simp
    with Cons.prems(1) have
      "list_all P (blocks @ [block_rtw (bestUrl_fb (block_links el)) (trim (or_empty (innerText el)))])"
      by simp
    with step[OF this] True show ?thesis by (auto simp: Let_def)
  qed
qed

lemma blocks_loop_fd_all:
  assumes "list_all P blocks"
    and "\<And>a el. a \<in> set as \<Longrightarrow> chosen_fd a = Some el \<Longrightarrow> P (block_fd a (or_empty (innerText el)))"
  shows "list_all P (blocks_loop_fd maxp as blocks)"
  using assms
proof (induction as arbitrary: blocks)
  case Nil
  then show ?case by simp
next
  case (Cons a as)
  have step: "\<And>b. list_all P b \<Longrightarrow> list_all P (blocks_loop_fd maxp as b)"
    using Cons.IH Cons.prems(2) by simp
  show ?case
  proof (cases "chosen_fd a")
    case None
    with step[OF Cons.prems(1)] show ?thesis by simp
  next
    case (Some el)
    have "P (block_fd a (or_empty (innerText el)))" using Cons.prems(2)[of a el] Some by simp
    with Cons.prems(1) have "list_all P (blocks @ [block_fd a (or_empty (innerText el))])" by simp
    with step[OF this] step[OF Cons.prems(1)] Some show ?thesis by (auto simp: Let_def)
  qed
qed

lemma keep_new_subset: "set (keep_new seen ps) \<subseteq> set ps"
  by (induction ps arbitrary: seen) auto

lemma dedupe_subset: "set (dedupe ps) \<subseteq> set ps"
  by (simp add: dedupe_keep keep_new_subset)

lemma slice0_subset: "set (slice0 n xs) \<subseteq> set xs"
  by (auto simp: slice0_def dest: in_set_takeD)

section \<open>What the discard tests let through\<close>

lemma set_trim: "set (trim s) \<subseteq> set s"
proof -
  have "set (trim s) = set (dropWhile is_space (rev (dropWhile is_space s)))"
    by (simp add: trim_def)
  also have "\<dots> \<subseteq> set (rev (dropWhile is_space s))" by (auto dest: set_dropWhileD)
  also have "\<dots> \<subseteq> set s" by (auto dest: set_dropWhileD)
  finally show ?thesis .
qed

lemma keep_dropWhile: "c \<in> set s \<Longrightarrow> \<not> P c \<Longrightarrow> c \<in> set (dropWhile P s)"
  by (induction s) auto

lemma keep_trim: "c \<in> set s \<Longrightarrow> \<not> is_space c \<Longrightarrow> c \<in> set (trim s)"
  by (simp add: trim_def keep_dropWhile)

lemma keep_collapse: "c \<in> set s \<Longrightarrow> \<not> is_space c \<Longrightarrow> c \<in> set (collapse_ws s)"
proof (induction s rule: collapse_ws.induct)
  case 1
  then show ?case by simp
next
  case (2 d ds)
  show ?case
  proof (cases "is_space d")
    case True
    with 2(3,4) have "c \<in> set ds" by auto
    with 2(4) have "c \<in> set (dropWhile is_space ds)" by (simp add: keep_dropWhile)
    from 2(1)[OF True this 2(4)] True show ?thesis by simp
  next
    case False
    with 2(2)[OF False] 2(3,4) show ?thesis by auto
  qed
qed

lemma percent_not_space: "\<not> is_space 37"
  by (simp add: is_space_def)

lemma keep_percent: "str_includes (trim s) (js ''%'') \<Longrightarrow> str_includes (clean (Str s)) (js ''%'')"
proof -
  assume "str_includes (trim s) (js ''%'')"
  then have "37 \<in> set (trim s)" by (simp add: js_def str_includes_single)
  with set_trim have "37 \<in> set s" by blast
  then have "37 \<in> set (collapse_ws s)" using percent_not_space by (simp add: keep_collapse)
  then have "37 \<in> set (trim (collapse_ws s))" using percent_not_space by (simp add: keep_trim)
  then show ?thesis by (simp add: clean_def js_def str_includes_single)
qed

lemma chosen_fd_percent:
  assumes "chosen_fd a = Some el"
  shows "str_includes (or_empty (innerText el)) (js ''%'')
     \<and> str_includes (clean (Str (or_empty (innerText el)))) (js ''%'')"
proof -
  from assms have p: "str_includes (trim (or_empty (innerText el))) (js ''%'')"
    by (auto simp: chosen_fd_def find_Some_iff looks_like_poll_fd_def)
  then have "37 \<in> set (trim (or_empty (innerText el)))" by (simp add: js_def str_includes_single)
  with set_trim have "37 \<in> set (or_empty (innerText el))" by blast
  then have "str_includes (or_empty (innerText el)) (js ''%'')" by (simp add: js_def str_includes_single)
  with keep_percent[OF p] show ?thesis by simp
qed

lemma blocks_rtw_all:
  assumes "\<And>u t. extractResults 12 t \<noteq> [] \<Longrightarrow> P (block_rtw u t)"
  shows "list_all P (blocks_rtw maxp doc)"
proof -
  have a: "\<And>as. list_all P (anchor_loop maxp as {} [])"
    by (rule anchor_loop_all) (simp_all add: assms)
  have c: "\<And>els b. list_all P b \<Longrightarrow> list_all P (container_loop maxp els b)"
    by (rule container_loop_all) (simp_all add: assms)
  show ?thesis unfolding blocks_rtw_def Let_def using a c by simp
qed

lemma blocks_rtw_nonempty: "p \<in> set (blocks_rtw maxp doc) \<Longrightarrow> results p \<noteq> []"
proof -
  have "list_all (\<lambda>p. results p \<noteq> []) (blocks_rtw maxp doc)"
    by (rule blocks_rtw_all) (simp add: results_block_rtw)
  then show "p \<in> set (blocks_rtw maxp doc) \<Longrightarrow> results p \<noteq> []" by (simp add: list_all_iff)
qed

lemma extract_frame_nonempty: "p \<in> set (extractPollsInFrame maxp f) \<Longrightarrow> results p \<noteq> []"
  by (cases f) (auto simp: extractPollsInFrame_def dest: blocks_rtw_nonempty)

lemma polls_rtw_nonempty: "p \<in> set (polls_rtw maxp frames) \<Longrightarrow> results p \<noteq> []"
proof -
  assume p: "p \<in> set (polls_rtw maxp frames)"
  have "set (polls_rtw maxp frames) \<subseteq> set (dedupe (frames_loop maxp frames []))"
    unfolding polls_rtw_def by (rule slice0_subset)
  also have "\<dots> \<subseteq> set (frames_loop maxp frames [])" by (rule dedupe_subset)
  finally have "p \<in> set (frames_loop maxp frames [])" using p by (rule subsetD)
  then have "p \<in> set (concat (map (extractPollsInFrame maxp) frames))"
    by (simp only: frames_loop_concat append_Nil)
  then obtain f where "p \<in> set (extractPollsInFrame maxp f)" by auto
  then show ?thesis by (rule extract_frame_nonempty)
qed

lemma blocks_fd_percent:
  "p \<in> set (blocks_fd maxp doc) \<Longrightarrow> str_includes (results_text p) (js ''%'')"
proof -
  have "list_all (\<lambda>p. str_includes (results_text p) (js ''%''))
          (blocks_loop_fd maxp (filter (\<lambda>a. isExternalPollUrl (a_attr a)) (anchors doc)) [])"
    by (rule blocks_loop_fd_all) (simp_all add: text_block_fd chosen_fd_percent)
  then show "p \<in> set (blocks_fd maxp doc) \<Longrightarrow> str_includes (results_text p) (js ''%'')"
    by (simp add: blocks_fd_def list_all_iff)
qed

section \<open>The url of a record\<close>

lemma chosen_rtw_in_chain: "chosen_rtw a = Some el \<Longrightarrow> el \<in> set (a_chain a)"
proof -
  assume "chosen_rtw a = Some el"
  then have "el \<in> set (take 10 (a_chain a))"
    unfolding chosen_rtw_def find_Some_iff by (metis nth_mem)
  then show ?thesis by (rule in_set_takeD)
qed

lemma blocks_rtw_url:
  "list_all (\<lambda>p.
      (\<exists>a \<in> set (anchors doc). \<exists>el \<in> set (a_chain a).
          url p = spec_url external_main (a_href a) (block_links el))
      \<or> (\<exists>c \<in> set (containers doc). url p = spec_url external_fb [] (block_links (c_el c))))
    (blocks_rtw maxp doc)"
proof -
  let ?P = "\<lambda>p. (\<exists>a \<in> set (anchors doc). \<exists>el \<in> set (a_chain a).
          url p = spec_url external_main (a_href a) (block_links el))
      \<or> (\<exists>c \<in> set (containers doc). url p = spec_url external_fb [] (block_links (c_el c)))"
  let ?as = "filter (\<lambda>a. \<not> isNoiseHref (a_attr a)) (filter (\<lambda>a. \<not> a_chrome a) (anchors doc))"
  let ?els = "take 2500 (map c_el (filter (\<lambda>c. \<not> c_chrome c) (containers doc)))"
  have a: "list_all ?P (anchor_loop maxp ?as {} [])"
  proof (rule anchor_loop_all)
    show "list_all ?P []" by simp
  next
    fix a el assume m: "a \<in> set ?as" and c: "chosen_rtw a = Some el"
    from m have "a \<in> set (anchors doc)" by simp
    moreover from c have "el \<in> set (a_chain a)" by (rule chosen_rtw_in_chain)
    ultimately show "?P (block_rtw (bestUrl_main (a_href a) (block_links el)) (or_empty (innerText el)))"
      unfolding url_block_rtw bestUrl_main_spec by blast
  qed
  have c: "list_all ?P (container_loop maxp ?els (anchor_loop maxp ?as {} []))"
  proof (rule container_loop_all)
    show "list_all ?P (anchor_loop maxp ?as {} [])" by (rule a)
  next
    fix el assume "el \<in> set ?els"
    then have "el \<in> set (map c_el (filter (\<lambda>c. \<not> c_chrome c) (containers doc)))"
      by (rule in_set_takeD)
    then obtain c where "c \<in> set (containers doc)" "el = c_el c" by auto
    then show "?P (block_rtw (bestUrl_fb (block_links el)) (trim (or_empty (innerText el))))"
      unfolding url_block_rtw bestUrl_fb_spec by blast
  qed
  show ?thesis unfolding blocks_rtw_def Let_def using a c by simp
qed

lemma blocks_fd_url:
  "list_all (\<lambda>p. \<exists>a \<in> set (anchors doc). url p = a_href a) (blocks_fd maxp doc)"
  unfolding blocks_fd_def
proof (rule blocks_loop_fd_all)
  show "list_all (\<lambda>p. \<exists>a \<in> set (anchors doc). url p = a_href a) []" by simp
next
  fix a el assume "a \<in> set (filter (\<lambda>a. isExternalPollUrl (a_attr a)) (anchors doc))"
  then have "a \<in> set (anchors doc)" by simp
  then show "\<exists>a' \<in> set (anchors doc). url (block_fd a (or_empty (innerText el))) = a_href a'"
    unfolding url_block_fd by blast
qed

section \<open>Labelled lines\<close>











section \<open>Records without results\<close>

text \<open>
  Claim C1, as stated, covers both variants. \<^verbatim>\<open>fetch-data.js\<close> keeps a block without
  results when its text has a percent sign: the block "Turnout was 100% in county" is
  returned with an empty results sequence.
\<close>

theorem empty_results_counterexample:
  "map results (blocks_fd 600 ex_turnout) = [[]] \<and> map results (polls_fd 600 ex_turnout) = [[]]"
  by (simp add: doc_ev chr_ev re_ev res_ev results_block_fd)

text \<open>
  Claim C1, amended. In \<^verbatim>\<open>fetch-data_RTW2.js\<close> every record has a non-empty results
  sequence: in the list that the in-page function returns, in the contribution of a
  frame, in the deduplicated list and in the list that a successful run writes. In
  \<^verbatim>\<open>fetch-data.js\<close> a discovered block without results is discarded only when its text
  has no percent sign; the text of a discovered block always has one, so its block is
  kept, and every record has a percent sign in its text.
\<close>

theorem results_nonempty:
  "(\<forall>p \<in> set (blocks_rtw maxp doc). results p \<noteq> [])
   \<and> (\<forall>p \<in> set (extractPollsInFrame maxp f). results p \<noteq> [])
   \<and> (\<forall>p \<in> set (polls_rtw maxp frames). results p \<noteq> [])
   \<and> (run_rtw maxp frames = Inr ps \<longrightarrow> (\<forall>p \<in> set ps. results p \<noteq> []))
   \<and> (chosen_fd a = Some el \<longrightarrow>
        \<not> (length (extractResults 10 (or_empty (innerText el))) = 0
           \<and> \<not> str_includes (or_empty (innerText el)) (js ''%'')))
   \<and> (\<forall>p \<in> set (blocks_fd maxp doc). str_includes (results_text p) (js ''%''))"
proof -
  have 4: "run_rtw maxp frames = Inr ps \<longrightarrow> (\<forall>p \<in> set ps. results p \<noteq> [])"
    using polls_rtw_nonempty by (auto simp: run_rtw_def split: if_splits)
  have 5: "chosen_fd a = Some el \<longrightarrow>
        \<not> (length (extractResults 10 (or_empty (innerText el))) = 0
           \<and> \<not> str_includes (or_empty (innerText el)) (js ''%''))"
    using chosen_fd_percent by blast
  from blocks_rtw_nonempty extract_frame_nonempty polls_rtw_nonempty 4 5 blocks_fd_percent
  show ?thesis by blast
qed

theorem results_nonempty_witness:
  "block_rtw (js ''https://a.example/1'') (js ''Gallup poll: Smith 47% Jones 43%'')
     \<in> set (blocks_rtw 600 ex_doc)
   \<and> block_rtw (js ''https://a.example/1'') (js ''Gallup poll: Smith 47% Jones 43%'')
     \<in> set (extractPollsInFrame 600 (Live ex_doc))
   \<and> block_rtw (js ''https://a.example/1'') (js ''Gallup poll: Smith 47% Jones 43%'')
     \<in> set (polls_rtw 600 [Broken, Live ex_doc])
   \<and> results (block_rtw (js ''https://a.example/1'') (js ''Gallup poll: Smith 47% Jones 43%'')) \<noteq> []
   \<and> chosen_fd (ex_anchor 1 ''https://a.example/1'' ''Gallup'' ex_block) = Some ex_block
   \<and> str_includes (or_empty (innerText ex_block)) (js ''%'')"
proof -
  let ?p = "block_rtw (js ''https://a.example/1'') (js ''Gallup poll: Smith 47% Jones 43%'')"
  have b: "blocks_rtw 600 ex_doc = [?p]"
    by (simp add: doc_ev chr_ev re_ev res_ev)
  then have h1: "?p \<in> set (blocks_rtw 600 ex_doc)" by simp
  from b have h2: "?p \<in> set (extractPollsInFrame 600 (Live ex_doc))"
    by (simp add: extractPollsInFrame_def)
  from b have h3: "?p \<in> set (polls_rtw 600 [Broken, Live ex_doc])"
    by (simp add: polls_rtw_def extractPollsInFrame_def dedupe_def slice0_def)
  have h5: "chosen_fd (ex_anchor 1 ''https://a.example/1'' ''Gallup'' ex_block) = Some ex_block"
    by (simp add: doc_ev chr_ev trim_def)
  from h1 results_nonempty[of 600 ex_doc] have c1: "results ?p \<noteq> []" by blast
  from h2 results_nonempty[of 600 _ "Live ex_doc"] have c2: "results ?p \<noteq> []" by blast
  from h3 results_nonempty[of 600 _ _ "[Broken, Live ex_doc]"] have c3: "results ?p \<noteq> []" by blast
  from h5 results_nonempty[of _ _ _ _ _ "ex_anchor 1 ''https://a.example/1'' ''Gallup'' ex_block" ex_block]
  have "\<not> (length (extractResults 10 (or_empty (innerText ex_block))) = 0
           \<and> \<not> str_includes (or_empty (innerText ex_block)) (js ''%''))" by blast
  moreover have "str_includes (or_empty (innerText ex_block)) (js ''%'')"
    by (simp add: ex_block_def ex_link_def js_def)
  ultimately show ?thesis using h1 h2 h3 c1 h5 by blast
qed


section \<open>Category classification\<close>

lemma inferCategory_first_rule: "inferCategory txt = first_rule (toLowerCase txt)"
  by (simp add: inferCategory_def first_rule_def category_rules_def Let_def)

lemma inferCategory_generic:
  assumes "str_includes txt u" and "toLowerCase u = js ''generic ballot''"
  shows "inferCategory txt = js ''generic_ballot''"
proof -
  from str_includes_lower[OF assms(1)] assms(2)
  have "str_includes (toLowerCase txt) (js ''generic ballot'')" by simp
  then show ?thesis by (simp add: inferCategory_def Let_def)
qed

lemma inferCategory_other:
  "list_all (\<lambda>r. \<not> fst r (toLowerCase txt)) category_rules \<Longrightarrow> inferCategory txt = js ''other''"
  by (auto simp: inferCategory_def category_rules_def Let_def)

lemma inferCategory_range: "inferCategory txt \<in> set categories"
  by (simp add: inferCategory_def categories_def Let_def)

text \<open>
  Claim C2. The category is that of the first rule, in the fixed priority order, whose
  keywords occur in the text without regard to case. In particular a text in which
  "generic ballot" and "president" occur (in any casing: \<open>u\<close> and \<open>v\<close> are the
  occurrences as written) is classified \<open>generic_ballot\<close>, a text to which no rule
  applies is classified \<open>other\<close>, and the result is always one of the ten values.
\<close>

theorem inferCategory_spec:
  "inferCategory txt = first_rule (toLowerCase txt)
   \<and> (str_includes txt u \<and> toLowerCase u = js ''generic ballot''
        \<and> str_includes txt v \<and> toLowerCase v = js ''president''
      \<longrightarrow> inferCategory txt = js ''generic_ballot'')
   \<and> (list_all (\<lambda>r. \<not> fst r (toLowerCase txt)) category_rules \<longrightarrow> inferCategory txt = js ''other'')
   \<and> inferCategory txt \<in> set categories"
  using inferCategory_first_rule inferCategory_generic inferCategory_other inferCategory_range
  by blast

theorem inferCategory_spec_witness:
  "(str_includes (js ''Generic Ballot: President'') (js ''Generic Ballot'')
    \<and> toLowerCase (js ''Generic Ballot'') = js ''generic ballot''
    \<and> str_includes (js ''Generic Ballot: President'') (js ''President'')
    \<and> toLowerCase (js ''President'') = js ''president''
    \<and> inferCategory (js ''Generic Ballot: President'') = js ''generic_ballot'')
   \<and> (list_all (\<lambda>r. \<not> fst r (toLowerCase (js ''Smith 47%''))) category_rules
    \<and> inferCategory (js ''Smith 47%'') = js ''other'')"
proof -
  have h1: "str_includes (js ''Generic Ballot: President'') (js ''Generic Ballot'')
    \<and> toLowerCase (js ''Generic Ballot'') = js ''generic ballot''
    \<and> str_includes (js ''Generic Ballot: President'') (js ''President'')
    \<and> toLowerCase (js ''President'') = js ''president''"
    by (simp add: str_ev)
  have h2: "list_all (\<lambda>r. \<not> fst r (toLowerCase (js ''Smith 47%''))) category_rules"
    by (simp add: str_ev category_rules_def)
  from h1 inferCategory_spec[of "js ''Generic Ballot: President''" "js ''Generic Ballot''" "js ''President''"]
  have c1: "inferCategory (js ''Generic Ballot: President'') = js ''generic_ballot''" by blast
  from h2 inferCategory_spec[of "js ''Smith 47%''"]
  have c2: "inferCategory (js ''Smith 47%'') = js ''other''" by blast
  from h1 h2 c1 c2 show ?thesis by blast
qed

section \<open>The primary results pattern\<close>




section \<open>The two-number fallback\<close>

text \<open>
  Claim C4, as stated, promises the entries A 47 and B 43 for every text without a
  percent sign in which "47-43" occurs. The fallback takes the leftmost match of its
  pattern, so a date range before the margin wins.
\<close>

theorem fallback_counterexample:
  "\<not> str_includes (js ''Jan 12-15 Smith 47-43'') (js ''%'')
   \<and> str_includes (js ''Jan 12-15 Smith 47-43'') (js ''47-43'')
   \<and> extractResults 10 (js ''Jan 12-15 Smith 47-43'')
       = [\<lparr>choice = js ''A'', pct = 12\<rparr>, \<lparr>choice = js ''B'', pct = 15\<rparr>]
   \<and> extractResults 12 (js ''Jan 12-15 Smith 47-43'')
       = [\<lparr>choice = js ''A'', pct = 12\<rparr>, \<lparr>choice = js ''B'', pct = 15\<rparr>]
   \<and> extractResults 10 (js ''Jan 12-15 Smith 47-43'')
       \<noteq> [\<lparr>choice = js ''A'', pct = 47\<rparr>, \<lparr>choice = js ''B'', pct = 43\<rparr>]"
  by (simp add: chr_ev re_ev res_ev)

text \<open>
  Claim C4, amended. The fallback is used exactly when the primary pattern has no match
  in the text, which is so for every text without a percent sign. Then, when the
  fallback pattern (two numbers of one or two digits with an optional fraction, joined by
  a hyphen or an en dash, between word boundaries) matches, the result is the two
  placeholder entries A and B with the numbers of its leftmost match, and the empty
  sequence when it does not match. A text without a percent sign whose leftmost such
  match is "47-43" gives A 47 and B 43.
\<close>

theorem fallback_spec:
  "extractResults cap txt
     = (if search re_primary [] txt = None then fallback txt else primary_loop cap [] txt [])
   \<and> (primary_loop cap [] txt [] = [] \<longleftrightarrow> search re_primary [] txt = None)
   \<and> (\<not> str_includes txt (js ''%'') \<longrightarrow> search re_primary [] txt = None)
   \<and> (search re_primary [] txt = None \<and> search re_fallback [] txt = Some b \<longrightarrow>
        (\<exists>a c. Number (grp b 1 2) = Some a \<and> Number (grp b 3 4) = Some c
           \<and> pct_literal (grp b 1 2) \<and> pct_literal (grp b 3 4)
           \<and> extractResults cap txt = [\<lparr>choice = js ''A'', pct = a\<rparr>, \<lparr>choice = js ''B'', pct = c\<rparr>]))
   \<and> (search re_primary [] txt = None \<and> search re_fallback [] txt = None \<longrightarrow>
        extractResults cap txt = [])
   \<and> extractResults 10 (js ''47-43'') = [\<lparr>choice = js ''A'', pct = 47\<rparr>, \<lparr>choice = js ''B'', pct = 43\<rparr>]
   \<and> extractResults 12 (js ''Smith vs Jones 47-43'')
       = [\<lparr>choice = js ''A'', pct = 47\<rparr>, \<lparr>choice = js ''B'', pct = 43\<rparr>]"
proof -
  have e: "primary_loop cap [] txt [] = [] \<longleftrightarrow> search re_primary [] txt = None"
    by (rule primary_empty_iff)
  have 1: "extractResults cap txt
     = (if search re_primary [] txt = None then fallback txt else primary_loop cap [] txt [])"
    using e by (auto simp: extractResults_def Let_def)
  have 3: "\<not> str_includes txt (js ''%'') \<longrightarrow> search re_primary [] txt = None"
    using no_percent_no_primary[of "txt" cap] e by blast
  have 4: "search re_primary [] txt = None \<and> search re_fallback [] txt = Some b \<longrightarrow>
        (\<exists>a c. Number (grp b 1 2) = Some a \<and> Number (grp b 3 4) = Some c
           \<and> pct_literal (grp b 1 2) \<and> pct_literal (grp b 3 4)
           \<and> extractResults cap txt = [\<lparr>choice = js ''A'', pct = a\<rparr>, \<lparr>choice = js ''B'', pct = c\<rparr>])"
  proof
    assume a: "search re_primary [] txt = None \<and> search re_fallback [] txt = Some b"
    with 1 have "extractResults cap txt = fallback txt" by simp
    with fallback_entries[of "txt" b] a show "\<exists>a c. Number (grp b 1 2) = Some a \<and> Number (grp b 3 4) = Some c
           \<and> pct_literal (grp b 1 2) \<and> pct_literal (grp b 3 4)
           \<and> extractResults cap txt = [\<lparr>choice = js ''A'', pct = a\<rparr>, \<lparr>choice = js ''B'', pct = c\<rparr>]"
      by simp
  qed
  have 5: "search re_primary [] txt = None \<and> search re_fallback [] txt = None \<longrightarrow>
        extractResults cap txt = []"
    using 1 by (simp add: fallback_def)
  have 6: "extractResults 10 (js ''47-43'') = [\<lparr>choice = js ''A'', pct = 47\<rparr>, \<lparr>choice = js ''B'', pct = 43\<rparr>]"
    by (simp add: chr_ev re_ev res_ev)
  have 7: "extractResults 12 (js ''Smith vs Jones 47-43'')
       = [\<lparr>choice = js ''A'', pct = 47\<rparr>, \<lparr>choice = js ''B'', pct = 43\<rparr>]"
    by (simp add: chr_ev re_ev res_ev)
  from 1 e 3 4 5 6 7 show ?thesis by blast
qed

theorem fallback_spec_witness:
  "\<not> str_includes (js ''47-43'') (js ''%'')
   \<and> search re_primary [] (js ''47-43'') = None
   \<and> search re_fallback [] (js ''47-43'') = Some ex_margin
   \<and> Number (grp ex_margin 1 2) = Some 47 \<and> Number (grp ex_margin 3 4) = Some 43
   \<and> extractResults 10 (js ''47-43'') = [\<lparr>choice = js ''A'', pct = 47\<rparr>, \<lparr>choice = js ''B'', pct = 43\<rparr>]
   \<and> search re_primary [] (js ''Smith 47'') = None
   \<and> search re_fallback [] (js ''Smith 47'') = None
   \<and> extractResults 10 (js ''Smith 47'') = []"
proof -
  have h1: "\<not> str_includes (js ''47-43'') (js ''%'')" by (simp add: js_def)
  from h1 fallback_spec[of 10 "js ''47-43''"] have h2: "search re_primary [] (js ''47-43'') = None"
    by blast
  have h3: "search re_fallback [] (js ''47-43'') = Some ex_margin"
    by (simp add: chr_ev re_ev res_ev ex_margin_def)
  have n: "Number (grp ex_margin 1 2) = Some 47 \<and> Number (grp ex_margin 3 4) = Some 43"
    by (simp add: chr_ev re_ev res_ev ex_margin_def)
  from h2 h3 fallback_spec[of 10 "js ''47-43''" ex_margin] obtain a c where
    "Number (grp ex_margin 1 2) = Some a" "Number (grp ex_margin 3 4) = Some c"
    "extractResults 10 (js ''47-43'') = [\<lparr>choice = js ''A'', pct = a\<rparr>, \<lparr>choice = js ''B'', pct = c\<rparr>]"
    by blast
  with n have c1: "extractResults 10 (js ''47-43'') = [\<lparr>choice = js ''A'', pct = 47\<rparr>, \<lparr>choice = js ''B'', pct = 43\<rparr>]"
    by simp
  have h4: "search re_primary [] (js ''Smith 47'') = None \<and> search re_fallback [] (js ''Smith 47'') = None"
    by (simp add: chr_ev re_ev res_ev)
  from h4 fallback_spec[of 10 "js ''Smith 47''"] have c2: "extractResults 10 (js ''Smith 47'') = []"
    by blast
  from h1 h2 h3 n c1 h4 c2 show ?thesis by blast
qed

section \<open>The range of a percentage\<close>



section \<open>The pollster classifier\<close>




section \<open>The canonical url\<close>

text \<open>
  Claim C9, as stated, covers both variants. \<^verbatim>\<open>fetch-data.js\<close> never looks at the
  links inside the block: the url is the address of the anchor from which the block was
  found. In \<open>ex_doc\<close> the block of the second anchor has the first anchor's external
  link before it, which the claim selects, and the record has the second anchor's.
\<close>

theorem url_counterexample:
  "map url (blocks_fd 600 ex_doc) = [js ''https://a.example/1'', js ''https://b.example/2'']
   \<and> spec_url external_main (js ''https://b.example/2'') (block_links ex_block) = js ''https://a.example/1''
   \<and> js ''https://b.example/2'' \<noteq> js ''https://a.example/1''"
  by (simp add: doc_ev chr_ev re_ev res_ev url_block_fd spec_url_def)

text \<open>
  Claim C9, amended. In \<^verbatim>\<open>fetch-data_RTW2.js\<close> the url of a block is the first
  non-noise link inside the block whose address is external (it begins with http and is
  not on the source site), before the anchor's own address, before any link inside the
  block, before the empty string; a block of the fallback pass has no anchor. In
  \<^verbatim>\<open>fetch-data.js\<close> the url is the address of the anchor from which the block was found.
\<close>

theorem url_spec:
  "bestUrl_main own links = spec_url external_main own links
   \<and> bestUrl_fb links = spec_url external_fb [] links
   \<and> (\<forall>p \<in> set (blocks_rtw maxp doc).
        (\<exists>a \<in> set (anchors doc). \<exists>el \<in> set (a_chain a).
            url p = spec_url external_main (a_href a) (block_links el))
        \<or> (\<exists>c \<in> set (containers doc). url p = spec_url external_fb [] (block_links (c_el c))))
   \<and> (\<forall>p \<in> set (blocks_fd maxp doc). \<exists>a \<in> set (anchors doc). url p = a_href a)"
  using bestUrl_main_spec[of own links] bestUrl_fb_spec[of links]
    blocks_rtw_url[of doc maxp] blocks_fd_url[of doc maxp]
  by (simp add: list_all_iff)

theorem url_spec_witness:
  "block_rtw (js ''https://a.example/1'') (js ''Gallup poll: Smith 47% Jones 43%'')
     \<in> set (blocks_rtw 600 ex_doc)
   \<and> ((\<exists>a \<in> set (anchors ex_doc). \<exists>el \<in> set (a_chain a).
          url (block_rtw (js ''https://a.example/1'') (js ''Gallup poll: Smith 47% Jones 43%''))
            = spec_url external_main (a_href a) (block_links el))
      \<or> (\<exists>c \<in> set (containers ex_doc).
          url (block_rtw (js ''https://a.example/1'') (js ''Gallup poll: Smith 47% Jones 43%''))
            = spec_url external_fb [] (block_links (c_el c))))
   \<and> block_fd (ex_anchor 2 ''https://b.example/2'' ''source'' ex_block) (js ''Gallup poll: Smith 47% Jones 43%'')
     \<in> set (blocks_fd 600 ex_doc)
   \<and> (\<exists>a \<in> set (anchors ex_doc).
         url (block_fd (ex_anchor 2 ''https://b.example/2'' ''source'' ex_block)
                (js ''Gallup poll: Smith 47% Jones 43%'')) = a_href a)"
proof -
  let ?p = "block_rtw (js ''https://a.example/1'') (js ''Gallup poll: Smith 47% Jones 43%'')"
  let ?q = "block_fd (ex_anchor 2 ''https://b.example/2'' ''source'' ex_block) (js ''Gallup poll: Smith 47% Jones 43%'')"
  have h1: "?p \<in> set (blocks_rtw 600 ex_doc)"
    by (simp add: doc_ev chr_ev re_ev res_ev)
  have h2: "?q \<in> set (blocks_fd 600 ex_doc)"
    by (simp add: doc_ev chr_ev re_ev res_ev)
  from h1 url_spec[of _ _ 600 ex_doc] have c1:
    "(\<exists>a \<in> set (anchors ex_doc). \<exists>el \<in> set (a_chain a).
          url ?p = spec_url external_main (a_href a) (block_links el))
      \<or> (\<exists>c \<in> set (containers ex_doc). url ?p = spec_url external_fb [] (block_links (c_el c)))"
    by blast
  from h2 url_spec[of _ _ 600 ex_doc] have c2: "\<exists>a \<in> set (anchors ex_doc). url ?q = a_href a"
    by blast
  from h1 h2 c1 c2 show ?thesis by blast
qed

end
